theory Spec2Isabelle
  imports Main "HOL-Library.Sublist"
begin

text \<open>
  The component \<^verbatim>\<open>App\<close> of App.tsx: the metadata of the downloaded model files, the
  reconciliation with the files on disk, downloads, the engine context, the completion
  callback that separates reasoning from visible text, and cancellation. State cells are
  fields of a record that each handler takes and returns; what the file system, the
  engine and the network answer is an argument of the handler that asks. A handler reads
  the state of the render it was created in. Where a handler goes on after the state has
  changed (\<^verbatim>\<open>loadModel\<close>, \<^verbatim>\<open>handleDownloadModel\<close>, the mount effect), that render
  state is an argument of its own, the closure; the other handlers are modelled on the
  current state.
\<close>

section \<open>JavaScript string primitives used by App.tsx\<close>

text \<open>
  A JavaScript string is modelled as a \<^typ>\<open>string\<close>; a \<^typ>\<open>char\<close> stands for one
  code unit below 256. The functions below are the library calls the component makes:
  \<^verbatim>\<open>includes\<close>, \<^verbatim>\<open>replace\<close> with a string pattern (first occurrence only),
  \<^verbatim>\<open>endsWith\<close> and \<^verbatim>\<open>trim\<close>.
\<close>

text \<open>
  \<open>split_at_first pat s\<close> finds the leftmost occurrence of \<open>pat\<close> in \<open>s\<close> and returns
  the text before it and the text after it (what \<^verbatim>\<open>indexOf\<close> locates).
\<close>

fun split_at_first :: "string \<Rightarrow> string \<Rightarrow> (string \<times> string) option" where
  "split_at_first pat [] = (if pat = [] then Some ([], []) else None)"
| "split_at_first pat (c # cs) =
     (if prefix pat (c # cs) then Some ([], drop (length pat) (c # cs))
      else map_option (\<lambda>(a, b). (c # a, b)) (split_at_first pat cs))"

definition js_includes :: "string \<Rightarrow> string \<Rightarrow> bool" where
  "js_includes s pat = (split_at_first pat s \<noteq> None)"

text \<open>
  \<^verbatim>\<open>s.replace(pat, rep)\<close> with a string pattern replaces the first occurrence only.
  Every call in the component passes the empty replacement, so the \<^verbatim>\<open>$\<close> patterns of
  the replacement string never arise.
\<close>

definition js_replace :: "string \<Rightarrow> string \<Rightarrow> string \<Rightarrow> string" where
  "js_replace s pat rep =
     (case split_at_first pat s of None \<Rightarrow> s | Some (a, b) \<Rightarrow> a @ rep @ b)"

definition js_endsWith :: "string \<Rightarrow> string \<Rightarrow> bool" where
  "js_endsWith s suf = suffix suf s"

text \<open>
  White space and line terminators of ECMAScript among the code units below 256:
  TAB, LF, VT, FF, CR, SPACE and NO-BREAK SPACE.
\<close>

definition is_whitespace :: "char \<Rightarrow> bool" where
  "is_whitespace c =
     (c \<in> set [CHR 0x09, CHR 0x0A, CHR 0x0B, CHR 0x0C, CHR 0x0D, CHR 0x20, CHR 0xA0])"

definition js_trim :: "string \<Rightarrow> string" where
  "js_trim s = rev (dropWhile is_whitespace (rev (dropWhile is_whitespace s)))"

section \<open>Reasoning markers and the strip pass\<close>

definition OPEN_TAG :: string where
  "OPEN_TAG = ''<think>''"

definition CLOSE_TAG :: string where
  "CLOSE_TAG = ''</think>''"

text \<open>
  \<^verbatim>\<open>s.replace(/<think>.*?<\/think>/gs, "")\<close>: scanning from the left, the first opening
  marker that has a closing marker after it is removed together with everything up to and
  including the first such closing marker; the scan resumes after the removed span. When
  the leftmost opening marker has no closing marker after it, no later one has either, and
  the rest of the string is kept as it is.
\<close>

function strip_think :: "string \<Rightarrow> string" where
  "strip_think s =
     (case split_at_first OPEN_TAG s of
        None \<Rightarrow> s
      | Some (pre, rest) \<Rightarrow>
          (case split_at_first CLOSE_TAG rest of
             None \<Rightarrow> s
           | Some (mid, post) \<Rightarrow> pre @ strip_think post))"
  by pat_completeness auto

termination strip_think
proof (relation "measure length")
  show "wf (measure length)" by simp
next
  fix s x2 pre rest x2a mid post
  assume a: "split_at_first OPEN_TAG s = Some x2" "(pre, rest) = x2"
    "split_at_first CLOSE_TAG rest = Some x2a" "(mid, post) = x2a"
  have decomp: "split_at_first pat t = Some (u, v) \<Longrightarrow> t = u @ pat @ v" for pat t u v
  proof (induction t arbitrary: u v)
    case Nil
    then show ?case by (simp split: if_splits)
  next
    case (Cons c cs)
    show ?case
    proof (cases "prefix pat (c # cs)")
      case True
      with Cons.prems have "u = []" "v = drop (length pat) (c # cs)" by simp_all
      moreover from True obtain zs where "c # cs = pat @ zs" by (auto simp: prefix_def)
      ultimately show ?thesis by simp
    next
      case False
      with Cons.prems obtain u' where
        "split_at_first pat cs = Some (u', v)" "u = c # u'"
        by (auto split: prod.splits)
      with Cons.IH show ?thesis by simp
    qed
  qed
  from a have "s = pre @ OPEN_TAG @ rest" "rest = mid @ CLOSE_TAG @ post"
    by (auto dest: decomp)
  then show "(post, s) \<in> measure length"
    by (simp add: OPEN_TAG_def)
qed

declare strip_think.simps [simp del]

section \<open>Data model\<close>

datatype Role = User | Assistant | System

text \<open>\<^verbatim>\<open>type Message\<close>; the optional fields are \<open>None\<close> when undefined.\<close>

record Message =
  role :: Role
  content :: string
  thought :: "string option"
  showThought :: "bool option"

text \<open>\<^verbatim>\<open>type ModelMetadata\<close>; \<open>size_bytes\<close> is the optional field \<^verbatim>\<open>size\<close>.\<close>

record ModelMetadata =
  filename :: string
  format :: string
  downloadDate :: string
  size_bytes :: "nat option"

text \<open>Reading a property of \<^verbatim>\<open>undefined\<close> throws.\<close>

datatype error = TypeError

definition INITIAL_CONVERSATION :: "Message list" where
  "INITIAL_CONVERSATION =
     [\<lparr>role = System,
       content = ''This is a conversation between user and assistant, a friendly chatbot.'',
       thought = None, showThought = None\<rparr>]"

text \<open>What the backing record file holds when it is read at start.\<close>

datatype file_content = Absent | Unreadable | Stored "ModelMetadata list"

text \<open>
  The state of the component (its \<^verbatim>\<open>useState\<close> cells; \<open>context_h\<close> is the cell
  \<^verbatim>\<open>context\<close>, holding the handle of an engine context or \<^verbatim>\<open>null\<close>).
  Throughput samples are the values \<^verbatim>\<open>parseFloat(x.toFixed(2))\<close>, counted in
  hundredths of a token per second; download progress is counted in whole percent.
\<close>

record app =
  context_h :: "nat option"
  conversation :: "Message list"
  userInput :: string
  isLoading :: bool
  isGenerating :: bool
  autoScrollEnabled :: bool
  tokensPerSecond :: "nat list"
  modelMetadata :: "ModelMetadata list"
  downloadedModels :: "string list"
  selectedModelFormat :: string
  isDownloading :: bool
  progress :: nat
  isModelLoading :: bool
  modelLoadError :: "string option"

text \<open>
  What lies outside the component: the engine contexts that llama.rn holds, the record
  file, whether writing it succeeds, the documents directory, and logs of the alerts
  shown, of the calls of \<^verbatim>\<open>downloadModel\<close> and of the progress callbacks it made.
\<close>

record world =
  live_contexts :: "nat list"
  next_context :: nat
  metadata_file :: file_content
  write_ok :: bool
  DocumentDirectoryPath :: string
  alerts :: "(string \<times> string) list"
  transfers :: "(string \<times> string) list"
  progress_calls :: "nat list"

definition alert :: "string \<Rightarrow> string \<Rightarrow> world \<Rightarrow> world" where
  "alert title msg w = w\<lparr>alerts := alerts w @ [(title, msg)]\<rparr>"

section \<open>MetadataStore: load at start, save on change\<close>

text \<open>
  The effect with dependency \<^verbatim>\<open>[modelMetadata]\<close>: it writes the whole list, but only
  when the list is not empty; a failed write is logged and nothing else happens.
  \<^verbatim>\<open>JSON.parse (JSON.stringify M)\<close> is taken to be \<open>M\<close>.
\<close>

definition saveModelMetadata :: "ModelMetadata list \<Rightarrow> world \<Rightarrow> world" where
  "saveModelMetadata M w =
     (if length M > 0
      then (if write_ok w then w\<lparr>metadata_file := Stored M\<rparr> else w)
      else w)"

text \<open>
  \<^verbatim>\<open>setModelMetadata(updater)\<close> followed by the save effect that the changed state
  triggers. Every updater of the component returns a fresh array, so the effect runs
  after each call.
\<close>

definition setModelMetadata ::
  "(ModelMetadata list \<Rightarrow> ModelMetadata list) \<Rightarrow> app \<times> world \<Rightarrow> app \<times> world" where
  "setModelMetadata upd sw =
     (let M = upd (modelMetadata (fst sw))
      in ((fst sw)\<lparr>modelMetadata := M\<rparr>, saveModelMetadata M (snd sw)))"

definition loadModelMetadata :: "app \<times> world \<Rightarrow> app \<times> world" where
  "loadModelMetadata sw =
     (case metadata_file (snd sw) of
        Stored M \<Rightarrow> setModelMetadata (\<lambda>_. M) sw
      | _ \<Rightarrow> sw)"

section \<open>Reconciliation at start\<close>

definition inferFormat :: "string \<Rightarrow> string" where
  "inferFormat f =
     (if js_includes f ''Llama-3.2'' \<or> js_includes f ''llama-3.2'' then ''Llama-3.2-1B-Instruct''
      else if js_includes f ''Qwen2'' \<or> js_includes f ''qwen2'' then ''Qwen2-0.5B-Instruct''
      else if js_includes f ''DeepSeek'' \<or> js_includes f ''deepseek''
        then ''DeepSeek-R1-Distill-Qwen-1.5B''
      else if js_includes f ''SmolLM'' \<or> js_includes f ''smollm'' then ''SmolLM2-1.7B-Instruct''
      else ''Unknown'')"

text \<open>
  \<^verbatim>\<open>checkDownloadedModels\<close>. \<open>captured\<close> is the value of \<^verbatim>\<open>modelMetadata\<close> that the
  effect closure holds; the updater reads the state current when it runs. \<open>dir\<close> is the
  result of \<^verbatim>\<open>readDir\<close> (\<open>None\<close> when it throws), \<open>stat\<close> gives the size of a file
  (\<open>None\<close> when \<^verbatim>\<open>RNFS.stat\<close> throws) and \<open>clock\<close> the time stamp taken for a file's
  record.
\<close>

definition newRecord ::
  "(string \<Rightarrow> nat option) \<Rightarrow> (string \<Rightarrow> string) \<Rightarrow> string \<Rightarrow> ModelMetadata" where
  "newRecord stat clock f =
     \<lparr>filename = f, format = inferFormat f, downloadDate = clock f, size_bytes = stat f\<rparr>"

definition checkDownloadedModels ::
  "ModelMetadata list \<Rightarrow> string list option \<Rightarrow> (string \<Rightarrow> nat option) \<Rightarrow> (string \<Rightarrow> string)
     \<Rightarrow> app \<times> world \<Rightarrow> app \<times> world" where
  "checkDownloadedModels captured dir stat clock sw =
     (case dir of
        None \<Rightarrow> sw
      | Some files \<Rightarrow>
          (let ggufFiles = filter (\<lambda>n. js_endsWith n ''.gguf'') files;
               sw1 = ((fst sw)\<lparr>downloadedModels := ggufFiles\<rparr>, snd sw);
               existingFilenames = map filename captured;
               newFiles = filter (\<lambda>f. \<not> List.member existingFilenames f) ggufFiles
           in if length newFiles > 0
              then setModelMetadata (\<lambda>prev. prev @ map (newRecord stat clock) newFiles) sw1
              else sw1))"

text \<open>The state of the first render.\<close>

definition initial_app :: app where
  "initial_app =
     \<lparr>context_h = None, conversation = INITIAL_CONVERSATION, userInput = [],
      isLoading = False, isGenerating = False, autoScrollEnabled = True,
      tokensPerSecond = [], modelMetadata = [], downloadedModels = [],
      selectedModelFormat = [], isDownloading = False, progress = 0,
      isModelLoading = False, modelLoadError = None\<rparr>"

text \<open>A first start: no engine context, no record file, nothing logged.\<close>

definition initial_world :: world where
  "initial_world =
     \<lparr>live_contexts = [], next_context = 0, metadata_file = Absent, write_ok = True,
      DocumentDirectoryPath = ''/documents'', alerts = [], transfers = [],
      progress_calls = []\<rparr>"

text \<open>
  Mounting the component. Both effects have the dependency list \<^verbatim>\<open>[]\<close>: they run once,
  after the first render, so the closure of \<^verbatim>\<open>checkDownloadedModels\<close> holds the
  \<^verbatim>\<open>modelMetadata\<close> of that render, the empty list. \<open>mount\<close> is the schedule in which
  the record file has been read before the sizes of the files have been collected.
\<close>

definition mount ::
  "string list option \<Rightarrow> (string \<Rightarrow> nat option) \<Rightarrow> (string \<Rightarrow> string) \<Rightarrow> world \<Rightarrow> app \<times> world" where
  "mount dir stat clock w =
     checkDownloadedModels (modelMetadata initial_app) dir stat clock
       (loadModelMetadata (initial_app, w))"

section \<open>ModelSessionManager: loadModel\<close>

text \<open>
  \<^verbatim>\<open>loadModel\<close> is written as the states it passes through. \<open>cl\<close> is the closure: the
  state of the render in which the handler was created, from which the handler reads
  \<^verbatim>\<open>context\<close>, \<^verbatim>\<open>modelMetadata\<close> and \<^verbatim>\<open>selectedModelFormat\<close>; the updaters act on
  the current state. \<open>rel\<close> and \<open>ini\<close> are the outcomes of \<^verbatim>\<open>releaseAllLlama\<close> and
  \<^verbatim>\<open>initLlama\<close>: \<open>Inl msg\<close> when the call throws. The timer that clears
  \<^verbatim>\<open>modelLoadError\<close> after three seconds is left out.
\<close>

text \<open>From the call to the point where \<^verbatim>\<open>initLlama\<close> is awaited.\<close>

definition loadModel_release ::
  "app \<Rightarrow> string + unit \<Rightarrow> app \<times> world \<Rightarrow> (app \<times> world) \<times> string option" where
  "loadModel_release cl rel sw =
     (let s1 = (fst sw)\<lparr>isModelLoading := True\<rparr>
      in if context_h cl \<noteq> None
         then (case rel of
                 Inl msg \<Rightarrow> ((s1, snd sw), Some msg)
               | Inr _ \<Rightarrow>
                   ((s1\<lparr>context_h := None, conversation := INITIAL_CONVERSATION\<rparr>,
                     (snd sw)\<lparr>live_contexts := []\<rparr>), None))
         else ((s1, snd sw), None))"

text \<open>The engine creates the context that \<^verbatim>\<open>initLlama\<close> will return.\<close>

definition loadModel_init :: "app \<times> world \<Rightarrow> app \<times> world" where
  "loadModel_init sw =
     (fst sw,
      (snd sw)\<lparr>live_contexts := live_contexts (snd sw) @ [next_context (snd sw)],
               next_context := Suc (next_context (snd sw))\<rparr>)"

text \<open>After \<^verbatim>\<open>initLlama\<close> has returned the context \<open>h\<close>.\<close>

definition loadModel_finish :: "string \<Rightarrow> app \<Rightarrow> nat \<Rightarrow> app \<times> world \<Rightarrow> app \<times> world" where
  "loadModel_finish modelName cl h sw =
     (let sw1 = ((fst sw)\<lparr>context_h := Some h\<rparr>, snd sw);
          fmt = selectedModelFormat cl;
          sw2 = (case find (\<lambda>m. filename m = modelName) (modelMetadata cl) of
                   None \<Rightarrow> sw1
                 | Some modelMeta \<Rightarrow>
                     if format modelMeta = ''Unknown''
                     then setModelMetadata
                            (map (\<lambda>m. if filename m = modelName
                                       then m\<lparr>format := (if fmt \<noteq> [] then fmt else format m)\<rparr>
                                       else m)) sw1
                     else sw1)
      in ((fst sw2)\<lparr>isModelLoading := False\<rparr>, snd sw2))"

definition loadModel_catch :: "string \<Rightarrow> app \<times> world \<Rightarrow> app \<times> world" where
  "loadModel_catch msg sw = ((fst sw)\<lparr>modelLoadError := Some msg, isModelLoading := False\<rparr>, snd sw)"

text \<open>A call of \<^verbatim>\<open>loadModel\<close> during which nothing else happens.\<close>

definition loadModel_instants ::
  "string \<Rightarrow> app \<Rightarrow> string + unit \<Rightarrow> string + unit \<Rightarrow> app \<times> world \<Rightarrow> (app \<times> world) list" where
  "loadModel_instants modelName cl rel ini sw =
     (case loadModel_release cl rel sw of
        (a, Some msg) \<Rightarrow> [a, loadModel_catch msg a]
      | (a, None) \<Rightarrow>
          (case ini of
             Inl msg \<Rightarrow> [a, loadModel_catch msg a]
           | Inr _ \<Rightarrow>
               [a, loadModel_init a,
                loadModel_finish modelName cl (next_context (snd a)) (loadModel_init a)]))"

text \<open>The state \<^verbatim>\<open>loadModel\<close> ends in, and the boolean it returns.\<close>

definition loadModel ::
  "string \<Rightarrow> app \<Rightarrow> string + unit \<Rightarrow> string + unit \<Rightarrow> app \<times> world
     \<Rightarrow> (app \<times> world) \<times> bool" where
  "loadModel modelName cl rel ini sw =
     (last (loadModel_instants modelName cl rel ini sw),
      (case loadModel_release cl rel sw of
         (_, Some _) \<Rightarrow> False
       | (_, None) \<Rightarrow> (case ini of Inl _ \<Rightarrow> False | Inr _ \<Rightarrow> True)))"

text \<open>
  Calls of \<^verbatim>\<open>loadModel\<close> from the screen, which may overlap: \<^verbatim>\<open>loadModel\<close> is
  asynchronous and a second call can start while an earlier one waits for
  \<^verbatim>\<open>initLlama\<close>. \<open>Call name rel\<close> starts a call in the current render, which is its
  closure, and runs it up to that wait; the call then joins the list of waiting calls.
  \<open>Settle i ini\<close> lets \<^verbatim>\<open>initLlama\<close> of the waiting call number \<open>i\<close> return or throw and
  runs that call to its end. A step gives the states passed through and the next
  configuration.
\<close>

datatype load_event = Call string "string + unit" | Settle nat "string + unit"

fun load_step ::
  "load_event \<Rightarrow> (app \<times> world) \<times> (string \<times> app) list
     \<Rightarrow> (app \<times> world) list \<times> ((app \<times> world) \<times> (string \<times> app) list)" where
  "load_step (Call modelName rel) (sw, waiting) =
     (case loadModel_release (fst sw) rel sw of
        (a, Some msg) \<Rightarrow> ([a, loadModel_catch msg a], (loadModel_catch msg a, waiting))
      | (a, None) \<Rightarrow> ([a], (a, waiting @ [(modelName, fst sw)])))"
| "load_step (Settle i ini) (sw, waiting) =
     (if i < length waiting
      then (case ini of
              Inl msg \<Rightarrow>
                ([loadModel_catch msg sw],
                 (loadModel_catch msg sw, take i waiting @ drop (Suc i) waiting))
            | Inr _ \<Rightarrow>
                (let b = loadModel_init sw;
                     c = loadModel_finish (fst (waiting ! i)) (snd (waiting ! i))
                           (next_context (snd sw)) b
                 in ([b, c], (c, take i waiting @ drop (Suc i) waiting))))
      else ([], (sw, waiting)))"

fun run_loads ::
  "load_event list \<Rightarrow> (app \<times> world) \<times> (string \<times> app) list
     \<Rightarrow> (app \<times> world) list \<times> ((app \<times> world) \<times> (string \<times> app) list)" where
  "run_loads [] cfg = ([fst cfg], cfg)"
| "run_loads (e # es) cfg =
     (fst cfg # fst (load_step e cfg) @ fst (run_loads es (snd (load_step e cfg))),
      snd (run_loads es (snd (load_step e cfg))))"

text \<open>
  Load requests that do not overlap: each call, given with the outcomes of its two
  engine calls, starts after the one before it has returned.
\<close>

definition one_after_another ::
  "(string \<times> (string + unit) \<times> (string + unit)) list \<Rightarrow> load_event list" where
  "one_after_another rs = concat (map (\<lambda>(modelName, rel, ini). [Call modelName rel, Settle 0 ini]) rs)"

section \<open>DownloadCoordinator: handleDownloadModel\<close>

definition HF_TO_GGUF :: "string \<Rightarrow> string option" where
  "HF_TO_GGUF fmt =
     (if fmt = ''Llama-3.2-1B-Instruct'' then Some ''medmekk/Llama-3.2-1B-Instruct.GGUF''
      else if fmt = ''DeepSeek-R1-Distill-Qwen-1.5B''
        then Some ''medmekk/DeepSeek-R1-Distill-Qwen-1.5B.GGUF''
      else if fmt = ''Qwen2-0.5B-Instruct'' then Some ''medmekk/Qwen2.5-0.5B-Instruct.GGUF''
      else if fmt = ''SmolLM2-1.7B-Instruct'' then Some ''medmekk/SmolLM2-1.7B-Instruct.GGUF''
      else None)"

definition downloadUrl :: "string \<Rightarrow> string \<Rightarrow> string" where
  "downloadUrl fmt file =
     ''https://huggingface.co/''
       @ (case HF_TO_GGUF fmt of Some repo \<Rightarrow> repo | None \<Rightarrow> ''undefined'')
       @ ''/resolve/main/'' @ file"

fun findIndex :: "('a \<Rightarrow> bool) \<Rightarrow> 'a list \<Rightarrow> nat option" where
  "findIndex P [] = None"
| "findIndex P (x # xs) = (if P x then Some 0 else map_option Suc (findIndex P xs))"

text \<open>The updater of the branch for a file that exists; \<^verbatim>\<open>!size\<close> holds for an
  undefined size and for the size 0.\<close>

definition backfillSize :: "string \<Rightarrow> nat \<Rightarrow> ModelMetadata list \<Rightarrow> ModelMetadata list" where
  "backfillSize file sz prevMetadata =
     (case findIndex (\<lambda>m. filename m = file) prevMetadata of
        None \<Rightarrow> prevMetadata
      | Some existingIndex \<Rightarrow>
          if size_bytes (prevMetadata ! existingIndex) = None
             \<or> size_bytes (prevMetadata ! existingIndex) = Some 0
          then prevMetadata[existingIndex := (prevMetadata ! existingIndex)\<lparr>size_bytes := Some sz\<rparr>]
          else prevMetadata)"

text \<open>The updater after a download: replace the record of the file, or append.\<close>

definition upsertRecord :: "string \<Rightarrow> ModelMetadata \<Rightarrow> ModelMetadata list \<Rightarrow> ModelMetadata list" where
  "upsertRecord file newMetadata prevMetadata =
     (case findIndex (\<lambda>m. filename m = file) prevMetadata of
        Some i \<Rightarrow> prevMetadata[i := newMetadata]
      | None \<Rightarrow> prevMetadata @ [newMetadata])"

text \<open>
  The outcomes of the calls \<^verbatim>\<open>handleDownloadModel\<close> makes outside the component:
  whether the destination exists, the size of the existing file (\<open>None\<close> when
  \<^verbatim>\<open>RNFS.stat\<close> throws), the outcomes of the two engine calls of each \<^verbatim>\<open>loadModel\<close>,
  what \<^verbatim>\<open>downloadModel\<close> does (\<open>Inl msg\<close> when it throws, else the progress values it
  reported and the path it returned), the size of the downloaded file and the time.
\<close>

record download_env =
  fileExists :: bool
  stat_existing :: "nat option"
  load_existing :: "(string + unit) \<times> (string + unit)"
  transfer :: "string + (nat list \<times> string)"
  stat_downloaded :: "string + nat"
  now :: string
  load_downloaded :: "(string + unit) \<times> (string + unit)"

definition download_finally :: "app \<times> world \<Rightarrow> app \<times> world" where
  "download_finally sw = ((fst sw)\<lparr>isDownloading := False\<rparr>, snd sw)"

text \<open>
  The \<^verbatim>\<open>try\<close> block of \<^verbatim>\<open>handleDownloadModel\<close> with its \<^verbatim>\<open>catch\<close> and
  \<^verbatim>\<open>finally\<close>; \<open>cl\<close> is the closure of \<^verbatim>\<open>handleDownloadModel\<close>, which the calls of
  \<^verbatim>\<open>loadModel\<close> inside it share.
\<close>

definition download_and_load ::
  "string \<Rightarrow> app \<Rightarrow> download_env \<Rightarrow> app \<times> world \<Rightarrow> app \<times> world" where
  "download_and_load file cl env sw =
     (let fmt = selectedModelFormat cl;
          w1 = (snd sw)\<lparr>transfers := transfers (snd sw) @ [(file, downloadUrl fmt file)]\<rparr>
      in case transfer env of
           Inl msg \<Rightarrow> download_finally (fst sw, alert ''Error'' (''Download failed: '' @ msg) w1)
         | Inr (progs, destPath) \<Rightarrow>
             (let s1 = fold (\<lambda>p s. s\<lparr>progress := p\<rparr>) progs (fst sw);
                  w2 = w1\<lparr>progress_calls := progress_calls w1 @ progs\<rparr>
              in case stat_downloaded env of
                   Inl msg \<Rightarrow>
                     download_finally (s1, alert ''Error'' (''Download failed: '' @ msg) w2)
                 | Inr fileSize \<Rightarrow>
                     (let newMetadata =
                            \<lparr>filename = file, format = fmt, downloadDate = now env,
                             size_bytes = Some fileSize\<rparr>;
                          sw3 = setModelMetadata (upsertRecord file newMetadata) (s1, w2);
                          prev = downloadedModels (fst sw3);
                          s4 = (fst sw3)\<lparr>downloadedModels :=
                                  (if \<not> List.member prev file then prev @ [file] else prev)\<rparr>;
                          w4 = alert ''Success'' (''Model downloaded to: '' @ destPath) (snd sw3);
                          sw5 = fst (loadModel file cl (fst (load_downloaded env))
                                       (snd (load_downloaded env)) (s4, w4))
                      in download_finally sw5)))"

definition handleDownloadModel :: "string \<Rightarrow> download_env \<Rightarrow> app \<times> world \<Rightarrow> app \<times> world" where
  "handleDownloadModel file env sw =
     (let cl = fst sw;
          sw0 = ((fst sw)\<lparr>isDownloading := True, progress := 0\<rparr>, snd sw);
          destPath = DocumentDirectoryPath (snd sw) @ ''/'' @ file
      in if fileExists env
         then (let sw1 = (case stat_existing env of
                            Some sz \<Rightarrow> setModelMetadata (backfillSize file sz) sw0
                          | None \<Rightarrow> sw0);
                   r = loadModel file cl (fst (load_existing env)) (snd (load_existing env)) sw1
               in if snd r
                  then ((fst (fst r))\<lparr>isDownloading := False\<rparr>,
                        alert ''Info''
                          (''File '' @ destPath @ '' already exists, we will load it directly.'')
                          (snd (fst r)))
                  else download_and_load file cl env (fst r))
         else download_and_load file cl env sw0)"

section \<open>deleteModel\<close>

text \<open>
  \<open>ex\<close> is the outcome of \<^verbatim>\<open>RNFS.exists\<close>, \<open>confirmed\<close> tells whether the user pressed
  Delete in the dialogue, \<open>unlink\<close> is the outcome of \<^verbatim>\<open>RNFS.unlink\<close>.
\<close>

definition deleteModel ::
  "string \<Rightarrow> string + bool \<Rightarrow> bool \<Rightarrow> string + unit \<Rightarrow> app \<times> world \<Rightarrow> app \<times> world" where
  "deleteModel name ex confirmed unlink sw =
     (case ex of
        Inl msg \<Rightarrow> (fst sw, alert ''Error'' (''Failed to delete model: '' @ msg) (snd sw))
      | Inr False \<Rightarrow>
          (fst sw, alert ''Error'' (''File '' @ name @ '' does not exist.'') (snd sw))
      | Inr True \<Rightarrow>
          (let w1 = alert ''Confirm Deletion''
                      (''Are you sure you want to delete '' @ name @ ''?'') (snd sw)
           in if \<not> confirmed then (fst sw, w1)
              else (case unlink of
                      Inl msg \<Rightarrow>
                        (fst sw, alert ''Error'' (''Failed to delete model: '' @ msg) w1)
                    | Inr _ \<Rightarrow>
                        (let sw2 = setModelMetadata (filter (\<lambda>m. filename m \<noteq> name)) (fst sw, w1);
                             s3 = (fst sw2)\<lparr>downloadedModels :=
                                     filter (\<lambda>m. m \<noteq> name) (downloadedModels (fst sw2))\<rparr>
                         in (s3, alert ''Success''
                                   (''Model '' @ name @ '' was deleted successfully.'') (snd sw2))))))"

section \<open>CompletionSession: the token callback and handleSendMessage\<close>

text \<open>The three variables that \<^verbatim>\<open>handleSendMessage\<close> declares before the completion.\<close>

record stream_vars =
  currentAssistantMessage :: string
  currentThought :: string
  inThinkBlock :: bool

definition initial_vars :: stream_vars where
  "initial_vars = \<lparr>currentAssistantMessage = [], currentThought = [], inThinkBlock = False\<rparr>"

text \<open>
  An updater that rewrites the entry at index \<^verbatim>\<open>prev.length - 1\<close>. On the empty list
  that entry is undefined and reading its \<^verbatim>\<open>content\<close> throws.
\<close>

definition update_last :: "(Message \<Rightarrow> Message) \<Rightarrow> Message list \<Rightarrow> error + Message list" where
  "update_last f prev = (if prev = [] then Inl TypeError else Inr (butlast prev @ [f (last prev)]))"

text \<open>
  The callback given to \<^verbatim>\<open>context.completion\<close>, for one token event: the branch on the
  markers inside the token, then the strip pass over the whole message so far, whose
  trimmed result becomes the content of the last turn.
\<close>

definition onToken ::
  "string \<Rightarrow> stream_vars \<times> Message list \<Rightarrow> error + (stream_vars \<times> Message list)" where
  "onToken token vc =
     (let v0 = (fst vc)\<lparr>currentAssistantMessage := currentAssistantMessage (fst vc) @ token\<rparr>;
          conv = snd vc;
          branch =
            (if js_includes token OPEN_TAG
             then (v0\<lparr>inThinkBlock := True, currentThought := js_replace token OPEN_TAG []\<rparr>,
                   Inr conv)
             else if js_includes token CLOSE_TAG
             then (let finalThought = js_trim (js_replace (currentThought v0) CLOSE_TAG [])
                   in (v0\<lparr>inThinkBlock := False, currentThought := []\<rparr>,
                       update_last
                         (\<lambda>m. m\<lparr>content :=
                                   js_replace (content m) (OPEN_TAG @ finalThought @ CLOSE_TAG) [],
                                 thought := Some finalThought\<rparr>) conv))
             else if inThinkBlock v0
             then (v0\<lparr>currentThought := currentThought v0 @ token\<rparr>, Inr conv)
             else (v0, Inr conv));
          visibleContent = js_trim (strip_think (currentAssistantMessage v0))
      in case snd branch of
           Inl e \<Rightarrow> Inl e
         | Inr conv1 \<Rightarrow>
             (case update_last (\<lambda>m. m\<lparr>content := visibleContent\<rparr>) conv1 of
                Inl e \<Rightarrow> Inl e
              | Inr conv2 \<Rightarrow> Inr (fst branch, conv2)))"

text \<open>The token events of one completion, in the order of arrival.\<close>

fun onTokens ::
  "string list \<Rightarrow> stream_vars \<times> Message list \<Rightarrow> error + (stream_vars \<times> Message list)" where
  "onTokens [] vc = Inr vc"
| "onTokens (t # ts) vc = (case onToken t vc of Inl e \<Rightarrow> Inl e | Inr vc' \<Rightarrow> onTokens ts vc')"

definition placeholder :: Message where
  "placeholder = \<lparr>role = Assistant, content = [], thought = None, showThought = Some False\<rparr>"

text \<open>
  \<^verbatim>\<open>handleSendMessage\<close>. \<open>tokens\<close> are the token events the engine delivers and
  \<open>outcome\<close> is how \<^verbatim>\<open>context.completion\<close> settles: \<open>Inr tps\<close> with the throughput of
  the timing record, or \<open>Inl msg\<close> when it throws.
\<close>

definition handleSendMessage ::
  "string list \<Rightarrow> string + nat \<Rightarrow> app \<times> world \<Rightarrow> error + (app \<times> world)" where
  "handleSendMessage tokens outcome sw =
     (let s = fst sw; w = snd sw
      in if context_h s = None
         then Inr (s, alert ''Model Not Loaded'' ''Please load the model first.'' w)
         else if js_trim (userInput s) = []
         then Inr (s, alert ''Input Error'' ''Please enter a message.'' w)
         else
           (let newConversation =
                  conversation s
                    @ [\<lparr>role = User, content = userInput s, thought = None, showThought = None\<rparr>];
                s1 = s\<lparr>conversation := newConversation, userInput := [], isLoading := True,
                       isGenerating := True, autoScrollEnabled := True\<rparr>;
                s2 = s1\<lparr>conversation := conversation s1 @ [placeholder]\<rparr>
            in case onTokens tokens (initial_vars, conversation s2) of
                 Inl e \<Rightarrow> Inl e
               | Inr vc \<Rightarrow>
                   (let s3 = s2\<lparr>conversation := snd vc\<rparr>
                    in case outcome of
                         Inr tps \<Rightarrow>
                           Inr (s3\<lparr>tokensPerSecond := tokensPerSecond s3 @ [tps],
                                   isLoading := False, isGenerating := False\<rparr>, w)
                       | Inl msg \<Rightarrow>
                           Inr (s3\<lparr>isLoading := False, isGenerating := False\<rparr>,
                                alert ''Error During Inference'' msg w))))"

text \<open>
  The sample the render shows under the message at position \<open>index\<close> of
  \<^verbatim>\<open>conversation.slice(1)\<close>: \<^verbatim>\<open>tokensPerSecond[Math.floor(index / 2)]\<close>, undefined
  beyond the end of the list.
\<close>

definition displayedTokensPerSecond :: "app \<Rightarrow> nat \<Rightarrow> nat option" where
  "displayedTokensPerSecond s index =
     (if index div 2 < length (tokensPerSecond s)
      then Some (tokensPerSecond s ! (index div 2)) else None)"

section \<open>Cancellation: stopGeneration\<close>

definition STOP_NOTICE :: string where
  "STOP_NOTICE = [CHR 0x0A, CHR 0x0A] @ ''*Generation stopped by user*''"

text \<open>
  \<open>stop_ok\<close> tells whether \<^verbatim>\<open>context.stopCompletion()\<close> returns; when it throws, or
  when \<^verbatim>\<open>context\<close> is null, the \<^verbatim>\<open>catch\<close> logs the error and nothing is changed.
\<close>

definition stopGeneration :: "bool \<Rightarrow> app \<Rightarrow> error + app" where
  "stopGeneration stop_ok s =
     (if context_h s = None \<or> \<not> stop_ok then Inr s
      else
        (let s1 = s\<lparr>isGenerating := False, isLoading := False\<rparr>;
             prev = conversation s1
         in if prev = [] then Inl TypeError
            else (let lastMessage = last prev
                  in if role lastMessage = Assistant
                     then Inr (s1\<lparr>conversation :=
                                   butlast prev
                                     @ [lastMessage\<lparr>content := content lastMessage @ STOP_NOTICE\<rparr>]\<rparr>)
                     else Inr s1)))"

section \<open>The reading of the specification compared with inferFormat\<close>

text \<open>
  The specification's rule for the family of a file name: a family matches when its
  name occurs in the file name, letter case ignored.
\<close>

definition ascii_lower :: "char \<Rightarrow> char" where
  "ascii_lower c =
     (let n = (of_char c :: nat) in if 65 \<le> n \<and> n \<le> 90 then char_of (n + 32) else c)"

definition spec_family_matches :: "string \<Rightarrow> string \<Rightarrow> bool" where
  "spec_family_matches family f = js_includes (map ascii_lower f) (map ascii_lower family)"

section \<open>The engine contexts between and inside loads\<close>

text \<open>
  Between two calls of \<^verbatim>\<open>loadModel\<close> that do not overlap, the contexts the engine holds
  are the one in the state cell \<^verbatim>\<open>context\<close>, and none when the cell is null.
\<close>

definition session_inv :: "app \<times> world \<Rightarrow> bool" where
  "session_inv sw \<longleftrightarrow>
     live_contexts (snd sw) = (case context_h (fst sw) of None \<Rightarrow> [] | Some h \<Rightarrow> [h])"

section \<open>Facts about the string primitives and the token callback\<close>

lemma split_at_first_decomp:
  "split_at_first pat s = Some (a, b) \<Longrightarrow> s = a @ pat @ b"
proof (induction s arbitrary: a b)
  case Nil
  then show ?case by (simp split: if_splits)
next
  case (Cons c cs)
  show ?case
  proof (cases "prefix pat (c # cs)")
    case True
    with Cons.prems have "a = []" "b = drop (length pat) (c # cs)" by simp_all
    moreover from True obtain zs where "c # cs = pat @ zs" by (auto simp: prefix_def)
    ultimately show ?thesis by simp
  next
    case False
    with Cons.prems obtain a' where
      "split_at_first pat cs = Some (a', b)" "a = c # a'"
      by (auto split: prod.splits)
    with Cons.IH show ?thesis by simp
  qed
qed

lemma split_at_first_found: "\<exists>r. split_at_first pat (a @ pat @ b) = Some r"
proof (induction a)
  case Nil
  have "prefix pat (pat @ b)" by simp
  then show ?case by (cases "pat @ b") auto
next
  case (Cons c a)
  then show ?case by auto
qed

lemma js_includes_iff: "js_includes s pat \<longleftrightarrow> (\<exists>a b. s = a @ pat @ b)"
proof
  assume "js_includes s pat"
  then obtain a b where "split_at_first pat s = Some (a, b)"
    by (auto simp: js_includes_def)
  then show "\<exists>a b. s = a @ pat @ b" by (blast dest: split_at_first_decomp)
next
  assume "\<exists>a b. s = a @ pat @ b"
  then show "js_includes s pat"
    using split_at_first_found by (auto simp: js_includes_def)
qed

lemma js_includes_append_left: "js_includes x pat \<Longrightarrow> js_includes (x @ y) pat"
  unfolding js_includes_iff by (metis append.assoc)

lemma js_includes_append_right: "js_includes y pat \<Longrightarrow> js_includes (x @ y) pat"
  unfolding js_includes_iff by (metis append.assoc)

lemma js_includes_concat: "t \<in> set ts \<Longrightarrow> js_includes t pat \<Longrightarrow> js_includes (concat ts) pat"
  by (induction ts) (auto intro: js_includes_append_left js_includes_append_right)

lemma split_at_first_leftmost:
  assumes "\<not> js_includes P (c # m)" and "c \<notin> set m"
  shows "split_at_first (c # m) (P @ (c # m) @ R) = Some (P, R)"
  using assms(1)
proof (induction P)
  case Nil
  show ?case by simp
next
  case (Cons x P)
  have np: "\<not> prefix (c # m) (x # P)"
    using Cons.prems by (auto simp: js_includes_iff prefix_def)
  have "\<not> prefix (c # m) ((x # P) @ (c # m) @ R)"
  proof
    assume "prefix (c # m) ((x # P) @ (c # m) @ R)"
    then obtain us where us: "c # m = (x # P) @ us" "prefix us ((c # m) @ R)"
      using np by (auto simp: prefix_append)
    from us(1) have "set us \<subseteq> set m" by (cases us) auto
    moreover from us np have "us \<noteq> []" by auto
    with us(2) have "hd us = c" by (cases us) auto
    ultimately show False using assms(2) \<open>us \<noteq> []\<close> by (cases us) auto
  qed
  moreover have "\<not> js_includes P (c # m)"
    using Cons.prems js_includes_append_right [of P "c # m" "[x]"] by auto
  ultimately show ?case using Cons.IH by simp
qed

lemma not_includes_None: "\<not> js_includes s pat \<Longrightarrow> split_at_first pat s = None"
  by (cases "split_at_first pat s") (simp_all add: js_includes_def)

lemma js_replace_absent: "\<not> js_includes s pat \<Longrightarrow> js_replace s pat rep = s"
  by (simp add: not_includes_None js_replace_def)

lemma strip_think_no_close: "\<not> js_includes s CLOSE_TAG \<Longrightarrow> strip_think s = s"
proof -
  assume nc: "\<not> js_includes s CLOSE_TAG"
  show ?thesis
  proof (cases "split_at_first OPEN_TAG s")
    case None
    then show ?thesis by (simp add: strip_think.simps [of s])
  next
    case (Some pr)
    obtain pre rest where pr: "pr = (pre, rest)" by (cases pr)
    with Some have "s = pre @ OPEN_TAG @ rest" by (auto dest: split_at_first_decomp)
    with nc have "\<not> js_includes rest CLOSE_TAG"
      by (metis js_includes_append_right)
    then have "split_at_first CLOSE_TAG rest = None" by (rule not_includes_None)
    with Some pr show ?thesis by (simp add: strip_think.simps [of s])
  qed
qed

lemma strip_think_pair:
  assumes "\<not> js_includes P OPEN_TAG" "\<not> js_includes T CLOSE_TAG"
  shows "strip_think (P @ OPEN_TAG @ T @ CLOSE_TAG @ Q) = P @ strip_think Q"
proof -
  have 1: "split_at_first OPEN_TAG (P @ OPEN_TAG @ T @ CLOSE_TAG @ Q) = Some (P, T @ CLOSE_TAG @ Q)"
    using split_at_first_leftmost [of P "CHR ''<''" "''think>''" "T @ CLOSE_TAG @ Q"] assms(1)
    by (simp add: OPEN_TAG_def)
  have 2: "split_at_first CLOSE_TAG (T @ CLOSE_TAG @ Q) = Some (T, Q)"
    using split_at_first_leftmost [of T "CHR ''<''" "''/think>''" Q] assms(2)
    by (simp add: CLOSE_TAG_def)
  show ?thesis
    by (subst strip_think.simps) (simp add: 1 2)
qed


lemma update_last_snoc: "update_last f (c @ [m]) = Inr (c @ [f m])"
  by (simp add: update_last_def)

lemma onToken_open:
  "js_includes t OPEN_TAG \<Longrightarrow>
   onToken t (v, c @ [m]) =
     Inr (\<lparr>currentAssistantMessage = currentAssistantMessage v @ t,
           currentThought = js_replace t OPEN_TAG [], inThinkBlock = True\<rparr>,
          c @ [m\<lparr>content := js_trim (strip_think (currentAssistantMessage v @ t))\<rparr>])"
  by (simp add: onToken_def Let_def update_last_snoc)

lemma onToken_close:
  "\<not> js_includes t OPEN_TAG \<Longrightarrow> js_includes t CLOSE_TAG \<Longrightarrow>
   onToken t (v, c @ [m]) =
     Inr (\<lparr>currentAssistantMessage = currentAssistantMessage v @ t,
           currentThought = [], inThinkBlock = False\<rparr>,
          c @ [m\<lparr>content := js_trim (strip_think (currentAssistantMessage v @ t)),
                 thought := Some (js_trim (js_replace (currentThought v) CLOSE_TAG []))\<rparr>])"
  by (simp add: onToken_def Let_def update_last_snoc)

lemma onToken_plain:
  "\<not> js_includes t OPEN_TAG \<Longrightarrow> \<not> js_includes t CLOSE_TAG \<Longrightarrow>
   onToken t (v, c @ [m]) =
     Inr (\<lparr>currentAssistantMessage = currentAssistantMessage v @ t,
           currentThought = (if inThinkBlock v then currentThought v @ t else currentThought v),
           inThinkBlock = inThinkBlock v\<rparr>,
          c @ [m\<lparr>content := js_trim (strip_think (currentAssistantMessage v @ t))\<rparr>])"
  by (simp add: onToken_def Let_def update_last_snoc)

lemma onTokens_append:
  "onTokens (xs @ ys) vc = (case onTokens xs vc of Inl e \<Rightarrow> Inl e | Inr vc' \<Rightarrow> onTokens ys vc')"
  by (induction xs arbitrary: vc) (auto split: sum.splits)

text \<open>Any run: the message accumulates, the content is the stripped and trimmed message.\<close>

lemma onTokens_any:
  "\<exists>ct it th. onTokens ts (v, c @ [m]) =
     Inr (\<lparr>currentAssistantMessage = currentAssistantMessage v @ concat ts,
           currentThought = ct, inThinkBlock = it\<rparr>,
          c @ [m\<lparr>content := (if ts = [] then content m
                               else js_trim (strip_think (currentAssistantMessage v @ concat ts))),
                 thought := th\<rparr>])"
proof (induction ts arbitrary: v m)
  case Nil
  have "onTokens [] (v, c @ [m]) =
     Inr (\<lparr>currentAssistantMessage = currentAssistantMessage v @ concat [],
           currentThought = currentThought v, inThinkBlock = inThinkBlock v\<rparr>,
          c @ [m\<lparr>content := (if [] = ([] :: string list) then content m
                               else js_trim (strip_think (currentAssistantMessage v @ concat []))),
                 thought := thought m\<rparr>])"
    by simp
  then show ?case by blast
next
  case (Cons t ts)
  consider (o) "js_includes t OPEN_TAG"
    | (c) "\<not> js_includes t OPEN_TAG" "js_includes t CLOSE_TAG"
    | (p) "\<not> js_includes t OPEN_TAG" "\<not> js_includes t CLOSE_TAG" by blast
  then obtain v1 m1 where
    step: "onToken t (v, c @ [m]) = Inr (v1, c @ [m1])"
      "currentAssistantMessage v1 = currentAssistantMessage v @ t"
      "\<exists>th. m1 = m\<lparr>content := js_trim (strip_think (currentAssistantMessage v @ t)), thought := th\<rparr>"
  proof cases
    case o
    show ?thesis
      by (rule that [OF onToken_open [OF o]]) (simp, rule exI [of _ "thought m"], simp)
  next
    case c
    show ?thesis
      by (rule that [OF onToken_close [OF c]]) (simp, blast)
  next
    case p
    show ?thesis
      by (rule that [OF onToken_plain [OF p]]) (simp, rule exI [of _ "thought m"], simp)
  qed
  from step(3) obtain th1 where m1:
    "m1 = m\<lparr>content := js_trim (strip_think (currentAssistantMessage v @ t)), thought := th1\<rparr>"
    by blast
  from Cons.IH [of v1 m1] obtain ct it th where
    "onTokens ts (v1, c @ [m1]) =
       Inr (\<lparr>currentAssistantMessage = currentAssistantMessage v1 @ concat ts,
             currentThought = ct, inThinkBlock = it\<rparr>,
            c @ [m1\<lparr>content := (if ts = [] then content m1
                               else js_trim (strip_think (currentAssistantMessage v1 @ concat ts))),
                   thought := th\<rparr>])"
    by blast
  then show ?case
    using step(1,2) m1 by (auto intro!: exI)
qed

text \<open>A run in which no token holds the closing marker leaves the thought as it was.\<close>

lemma onTokens_no_close:
  "\<forall>t \<in> set ts. \<not> js_includes t CLOSE_TAG \<Longrightarrow>
   \<exists>ct it. onTokens ts (v, c @ [m]) =
     Inr (\<lparr>currentAssistantMessage = currentAssistantMessage v @ concat ts,
           currentThought = ct, inThinkBlock = it\<rparr>,
          c @ [m\<lparr>content := (if ts = [] then content m
                               else js_trim (strip_think (currentAssistantMessage v @ concat ts)))\<rparr>])"
proof (induction ts arbitrary: v m)
  case Nil
  show ?case by (cases v) simp
next
  case (Cons t ts)
  from Cons.prems have nc: "\<not> js_includes t CLOSE_TAG" by simp
  obtain v1 where
    step: "onToken t (v, c @ [m]) =
             Inr (v1, c @ [m\<lparr>content := js_trim (strip_think (currentAssistantMessage v @ t))\<rparr>])"
      "currentAssistantMessage v1 = currentAssistantMessage v @ t"
  proof (cases "js_includes t OPEN_TAG")
    case True
    show ?thesis by (rule that [OF onToken_open [OF True]]) simp
  next
    case False
    show ?thesis by (rule that [OF onToken_plain [OF False nc]]) simp
  qed
  from Cons.prems have "\<forall>t \<in> set ts. \<not> js_includes t CLOSE_TAG" by simp
  from Cons.IH [OF this, of v1 "m\<lparr>content := js_trim (strip_think (currentAssistantMessage v @ t))\<rparr>"]
  show ?case using step by auto
qed

text \<open>Inside a think block, tokens without markers are appended to the thought.\<close>

lemma onTokens_inside:
  "\<forall>t \<in> set ts. \<not> js_includes t OPEN_TAG \<and> \<not> js_includes t CLOSE_TAG \<Longrightarrow> inThinkBlock v \<Longrightarrow>
   onTokens ts (v, c @ [m]) =
     Inr (\<lparr>currentAssistantMessage = currentAssistantMessage v @ concat ts,
           currentThought = currentThought v @ concat ts, inThinkBlock = True\<rparr>,
          c @ [m\<lparr>content := (if ts = [] then content m
                               else js_trim (strip_think (currentAssistantMessage v @ concat ts)))\<rparr>])"
proof (induction ts arbitrary: v m)
  case Nil
  then show ?case by (cases v) simp
next
  case (Cons t ts)
  from Cons.prems have t: "\<not> js_includes t OPEN_TAG" "\<not> js_includes t CLOSE_TAG"
    and rest: "\<forall>t \<in> set ts. \<not> js_includes t OPEN_TAG \<and> \<not> js_includes t CLOSE_TAG" by simp_all
  show ?case
    using Cons.prems(2)
    by (simp add: onToken_plain [OF t] Cons.IH [OF rest])
qed

section \<open>Cancellation\<close>

text \<open>
  Claim C10. When \<^verbatim>\<open>stopGeneration\<close> runs while the last turn of the conversation is
  not an assistant turn, the conversation is left exactly as it was: no notice is
  appended and no turn is added, removed or modified. This holds whether or not the
  stop request to the engine returns.
\<close>

theorem stopGeneration_keeps_log:
  assumes "conversation s \<noteq> []" and "role (last (conversation s)) \<noteq> Assistant"
  shows "\<exists>s'. stopGeneration stop_ok s = Inr s' \<and> conversation s' = conversation s"
  using assms by (simp add: stopGeneration_def Let_def)

theorem stopGeneration_keeps_log_witness:
  "conversation (initial_app\<lparr>context_h := Some 0\<rparr>) \<noteq> []
   \<and> role (last (conversation (initial_app\<lparr>context_h := Some 0\<rparr>))) \<noteq> Assistant
   \<and> (\<exists>s'. stopGeneration True (initial_app\<lparr>context_h := Some 0\<rparr>) = Inr s'
          \<and> conversation s' = conversation (initial_app\<lparr>context_h := Some 0\<rparr>))"
  using stopGeneration_keeps_log [of "initial_app\<lparr>context_h := Some 0\<rparr>" True]
  by (simp add: initial_app_def INITIAL_CONVERSATION_def)

text \<open>
  Claim C3, as stated, asks for the notice after every cancellation request. When the
  stop request to the engine throws, the \<^verbatim>\<open>catch\<close> of \<^verbatim>\<open>stopGeneration\<close> is taken
  before the conversation is touched: the in-flight assistant turn with content
  \<open>''Hi''\<close> keeps that content and no notice follows it.
\<close>

theorem stopGeneration_notice_counterexample:
  "stopGeneration False
     (initial_app\<lparr>context_h := Some 0,
                  conversation := INITIAL_CONVERSATION @ [placeholder\<lparr>content := ''Hi''\<rparr>]\<rparr>)
   = Inr (initial_app\<lparr>context_h := Some 0,
                       conversation := INITIAL_CONVERSATION @ [placeholder\<lparr>content := ''Hi''\<rparr>]\<rparr>)"
  by (simp add: stopGeneration_def)

text \<open>
  Claim C3, amended. When a context is loaded and the stop request returns, and the last
  turn is an assistant turn with content \<open>v\<close>, the state that \<^verbatim>\<open>stopGeneration\<close> returns
  has \<open>v\<close> followed by two line feeds and \<open>*Generation stopped by user*\<close> as the content
  of that turn; the earlier turns and the other fields of the turn are unchanged. The
  notice lasts until the next token event: whatever token arrives after the cancellation,
  the callback sets the content of the turn to the stripped and trimmed message of the
  stream. When no context is loaded or the stop request throws, \<^verbatim>\<open>stopGeneration\<close>
  returns the state as it was.
\<close>

theorem stopGeneration_appends_notice:
  "(context_h s \<noteq> None \<and> stop_ok \<and> conversation s = c @ [m] \<and> role m = Assistant
      \<longrightarrow> (\<exists>s'. stopGeneration stop_ok s = Inr s'
             \<and> conversation s'
                 = c @ [m\<lparr>content := content m @ [CHR 0x0A, CHR 0x0A]
                                         @ ''*Generation stopped by user*''\<rparr>]
             \<and> (\<forall>t v. \<exists>v' m'. onToken t (v, conversation s') = Inr (v', c @ [m'])
                     \<and> content m' = js_trim (strip_think (currentAssistantMessage v @ t)))))
   \<and> (context_h s = None \<or> \<not> stop_ok \<longrightarrow> stopGeneration stop_ok s = Inr s)"
proof (intro conjI impI)
  assume a: "context_h s \<noteq> None \<and> stop_ok \<and> conversation s = c @ [m] \<and> role m = Assistant"
  let ?m = "m\<lparr>content := content m @ [CHR 0x0A, CHR 0x0A] @ ''*Generation stopped by user*''\<rparr>"
  let ?s = "s\<lparr>isGenerating := False, isLoading := False, conversation := c @ [?m]\<rparr>"
  have 1: "stopGeneration stop_ok s = Inr ?s"
    using a by (auto simp: stopGeneration_def Let_def STOP_NOTICE_def)
  have 2: "\<exists>v' m'. onToken t (v, c @ [?m]) = Inr (v', c @ [m'])
              \<and> content m' = js_trim (strip_think (currentAssistantMessage v @ t))" for t v
    using onTokens_any [of "[t]" v c ?m] by (auto split: sum.splits)
  show "\<exists>s'. stopGeneration stop_ok s = Inr s'
          \<and> conversation s' = c @ [?m]
          \<and> (\<forall>t v. \<exists>v' m'. onToken t (v, conversation s') = Inr (v', c @ [m'])
                  \<and> content m' = js_trim (strip_think (currentAssistantMessage v @ t)))"
    using 1 2 by (intro exI [of _ ?s]) simp
next
  assume "context_h s = None \<or> \<not> stop_ok"
  then show "stopGeneration stop_ok s = Inr s"
    by (auto simp: stopGeneration_def)
qed

theorem stopGeneration_appends_notice_witness:
  "context_h (initial_app\<lparr>context_h := Some 0,
                conversation := INITIAL_CONVERSATION @ [placeholder\<lparr>content := ''Hi''\<rparr>]\<rparr>) \<noteq> None
   \<and> role (placeholder\<lparr>content := ''Hi''\<rparr>) = Assistant
   \<and> (\<exists>s'. stopGeneration True
               (initial_app\<lparr>context_h := Some 0,
                  conversation := INITIAL_CONVERSATION @ [placeholder\<lparr>content := ''Hi''\<rparr>]\<rparr>) = Inr s'
          \<and> conversation s'
              = INITIAL_CONVERSATION
                  @ [placeholder\<lparr>content := ''Hi'' @ [CHR 0x0A, CHR 0x0A] @ ''*Generation stopped by user*''\<rparr>]
          \<and> (\<exists>v' m'. onToken '' there''
                  (\<lparr>currentAssistantMessage = ''Hi'', currentThought = [], inThinkBlock = False\<rparr>,
                   conversation s') = Inr (v', INITIAL_CONVERSATION @ [m'])
                \<and> content m' = ''Hi there''))
   \<and> stopGeneration False
        (initial_app\<lparr>context_h := Some 0,
           conversation := INITIAL_CONVERSATION @ [placeholder\<lparr>content := ''Hi''\<rparr>]\<rparr>)
      = Inr (initial_app\<lparr>context_h := Some 0,
               conversation := INITIAL_CONVERSATION @ [placeholder\<lparr>content := ''Hi''\<rparr>]\<rparr>)"
proof -
  let ?s = "initial_app\<lparr>context_h := Some 0,
              conversation := INITIAL_CONVERSATION @ [placeholder\<lparr>content := ''Hi''\<rparr>]\<rparr>"
  let ?m = "placeholder\<lparr>content := ''Hi''\<rparr>"
  have h: "context_h ?s \<noteq> None \<and> True \<and> conversation ?s = INITIAL_CONVERSATION @ [?m]
             \<and> role ?m = Assistant"
    by (simp add: placeholder_def)
  have t: "js_trim (strip_think (''Hi'' @ '' there'')) = ''Hi there''"
    by code_simp
  from stopGeneration_appends_notice [of ?s True INITIAL_CONVERSATION ?m] h
  obtain s' where s': "stopGeneration True ?s = Inr s'"
    "conversation s' = INITIAL_CONVERSATION
        @ [?m\<lparr>content := content ?m @ [CHR 0x0A, CHR 0x0A] @ ''*Generation stopped by user*''\<rparr>]"
    "\<forall>t v. \<exists>v' m'. onToken t (v, conversation s') = Inr (v', INITIAL_CONVERSATION @ [m'])
        \<and> content m' = js_trim (strip_think (currentAssistantMessage v @ t))"
    by blast
  from s'(3) obtain v' m' where
    "onToken '' there''
        (\<lparr>currentAssistantMessage = ''Hi'', currentThought = [], inThinkBlock = False\<rparr>,
         conversation s') = Inr (v', INITIAL_CONVERSATION @ [m'])"
    "content m' = js_trim (strip_think (currentAssistantMessage
        \<lparr>currentAssistantMessage = ''Hi'', currentThought = [], inThinkBlock = False\<rparr> @ '' there''))"
    by blast
  then have tok: "\<exists>v' m'. onToken '' there''
        (\<lparr>currentAssistantMessage = ''Hi'', currentThought = [], inThinkBlock = False\<rparr>,
         conversation s') = Inr (v', INITIAL_CONVERSATION @ [m']) \<and> content m' = ''Hi there''"
    using t by auto
  have f: "stopGeneration False ?s = Inr ?s"
    using stopGeneration_appends_notice [of ?s False INITIAL_CONVERSATION ?m] by simp
  from h s'(1,2) tok f show ?thesis
    by (auto simp: placeholder_def)
qed

section \<open>At most one engine context\<close>

lemma setModelMetadata_engine [simp]:
  "live_contexts (snd (setModelMetadata f sw)) = live_contexts (snd sw)"
  "next_context (snd (setModelMetadata f sw)) = next_context (snd sw)"
  "context_h (fst (setModelMetadata f sw)) = context_h (fst sw)"
  by (simp_all add: setModelMetadata_def saveModelMetadata_def Let_def)

lemma loadModel_finish_engine:
  "live_contexts (snd (loadModel_finish n cl h sw)) = live_contexts (snd sw)"
  "next_context (snd (loadModel_finish n cl h sw)) = next_context (snd sw)"
  "context_h (fst (loadModel_finish n cl h sw)) = Some h"
  by (simp_all add: loadModel_finish_def Let_def split: option.splits)

lemma loadModel_as_events:
  "fst (snd (run_loads [Call n rel, Settle 0 ini] (sw, []))) = fst (loadModel n (fst sw) rel ini sw)"
  by (cases rel; cases ini)
    (simp_all add: loadModel_def loadModel_instants_def loadModel_release_def Let_def)

lemma run_loads_start: "fst cfg \<in> set (fst (run_loads es cfg))"
  by (cases es) simp_all

lemma run_loads_append:
  "snd (run_loads (es @ fs) cfg) = snd (run_loads fs (snd (run_loads es cfg)))"
  "set (fst (run_loads (es @ fs) cfg))
     = set (fst (run_loads es cfg)) \<union> set (fst (run_loads fs (snd (run_loads es cfg))))"
proof (induction es arbitrary: cfg)
  case Nil
  {
    case 1
    show ?case by simp
  next
    case 2
    show ?case using run_loads_start [of cfg fs] by auto
  }
next
  case (Cons e es)
  {
    case 1
    show ?case by (simp add: Cons.IH(1))
  next
    case 2
    show ?case by (simp add: Cons.IH(2) Un_assoc)
  }
qed

text \<open>One call that runs to its end before anything else happens.\<close>

lemma call_then_settle:
  assumes "session_inv sw"
  shows "\<exists>sw'. snd (run_loads [Call n rel, Settle 0 ini] (sw, [])) = (sw', [])
           \<and> session_inv sw'
           \<and> (\<forall>x \<in> set (fst (run_loads [Call n rel, Settle 0 ini] (sw, []))).
                 length (live_contexts (snd x)) \<le> 1)"
proof (cases "context_h (fst sw)")
  case None
  with assms have l: "live_contexts (snd sw) = []" by (simp add: session_inv_def)
  show ?thesis
    using None l
    by (cases ini)
      (simp_all add: session_inv_def loadModel_release_def loadModel_catch_def
        loadModel_init_def loadModel_finish_engine Let_def del: split_paired_All)
next
  case (Some h)
  with assms have l: "live_contexts (snd sw) = [h]" by (simp add: session_inv_def)
  show ?thesis
    using Some l
    by (cases rel; cases ini)
      (simp_all add: session_inv_def loadModel_release_def loadModel_catch_def
        loadModel_init_def loadModel_finish_engine Let_def del: split_paired_All)
qed

lemma one_after_another_inv:
  assumes "session_inv sw"
  shows "\<exists>sw'. snd (run_loads (one_after_another rs) (sw, [])) = (sw', [])
           \<and> session_inv sw'
           \<and> (\<forall>x \<in> set (fst (run_loads (one_after_another rs) (sw, []))).
                 length (live_contexts (snd x)) \<le> 1)"
  using assms
proof (induction rs arbitrary: sw)
  case Nil
  then show ?case
    by (auto simp: one_after_another_def session_inv_def split: option.splits)
next
  case (Cons r rs)
  obtain n rel ini where r: "r = (n, rel, ini)" by (cases r)
  have split: "one_after_another (r # rs) = [Call n rel, Settle 0 ini] @ one_after_another rs"
    by (simp add: one_after_another_def r)
  from call_then_settle [OF Cons.prems, of n rel ini] obtain sw1 where
    1: "snd (run_loads [Call n rel, Settle 0 ini] (sw, [])) = (sw1, [])" "session_inv sw1"
      "\<forall>x \<in> set (fst (run_loads [Call n rel, Settle 0 ini] (sw, []))).
         length (live_contexts (snd x)) \<le> 1"
    by blast
  from Cons.IH [OF 1(2)] obtain sw2 where
    2: "snd (run_loads (one_after_another rs) (sw1, [])) = (sw2, [])" "session_inv sw2"
      "\<forall>x \<in> set (fst (run_loads (one_after_another rs) (sw1, []))).
         length (live_contexts (snd x)) \<le> 1"
    by blast
  from 1 2 show ?case
    unfolding split run_loads_append by auto
qed

text \<open>
  Claim C4, as stated, covers a load that arrives while an earlier one is still loading.
  \<^verbatim>\<open>loadModel\<close> releases the engine contexts only when the context cell of its closure
  is set, and the cell is set only after \<^verbatim>\<open>initLlama\<close> has returned. Two calls from the
  first render, the second started while the first waits for \<^verbatim>\<open>initLlama\<close>, release
  nothing: both initialisations succeed, and from then on the engine holds the contexts
  0 and 1 at once.
\<close>

theorem overlapping_loads_counterexample:
  "map (\<lambda>x. live_contexts (snd x))
     (fst (run_loads [Call ''a.gguf'' (Inr ()), Call ''b.gguf'' (Inr ()),
                      Settle 0 (Inr ()), Settle 0 (Inr ())]
             ((initial_app, initial_world), [])))
     = [[], [], [], [], [], [0], [0], [0], [0, 1], [0, 1], [0, 1]]"
  by code_simp

lemma two_overlapping_loads:
  assumes "live_contexts (snd sw) = []" and "context_h (fst sw) = None"
  shows "live_contexts (snd (fst (snd (run_loads
             [Call a ra, Call b rb, Settle 0 (Inr ()), Settle 0 (Inr ())] (sw, [])))))
           = [next_context (snd sw), Suc (next_context (snd sw))]"
    and "context_h (fst (fst (snd (run_loads
             [Call a ra, Call b rb, Settle 0 (Inr ()), Settle 0 (Inr ())] (sw, [])))))
           = Some (Suc (next_context (snd sw)))"
  using assms
  by (simp_all add: loadModel_release_def loadModel_init_def loadModel_finish_engine Let_def)

text \<open>
  Claim C4, amended. Start from the first render with no engine context alive and make
  any sequence of \<^verbatim>\<open>loadModel\<close> calls that do not overlap, each with any outcome of its
  release and of its initialisation. At every state passed through, between the calls
  and inside them, the engine holds at most one context, and after the last call the
  contexts it holds are the one in the context cell, none when the cell is null. A call
  made in any state whose context cell is set, and whose release succeeds, has released
  all engine contexts and cleared the cell before it waits for \<^verbatim>\<open>initLlama\<close>. Two
  calls from that first render that do overlap, the second started before
  \<^verbatim>\<open>initLlama\<close> of the first has returned, and whose initialisations both succeed,
  leave two contexts alive, of which the cell holds the second.
\<close>

theorem loads_one_after_another:
  assumes "live_contexts w = []"
  shows "(\<forall>x \<in> set (fst (run_loads (one_after_another rs) ((initial_app, w), []))).
            length (live_contexts (snd x)) \<le> 1)
       \<and> live_contexts (snd (fst (snd (run_loads (one_after_another rs) ((initial_app, w), [])))))
           = (case context_h (fst (fst (snd (run_loads (one_after_another rs)
                                               ((initial_app, w), []))))) of
                None \<Rightarrow> [] | Some h \<Rightarrow> [h])
       \<and> (context_h (fst sw) \<noteq> None
            \<longrightarrow> live_contexts (snd (fst (snd (load_step (Call n (Inr ())) (sw, []))))) = []
                \<and> context_h (fst (fst (snd (load_step (Call n (Inr ())) (sw, []))))) = None)
       \<and> live_contexts (snd (fst (snd (run_loads
             [Call a ra, Call b rb, Settle 0 (Inr ()), Settle 0 (Inr ())] ((initial_app, w), [])))))
           = [next_context w, Suc (next_context w)]
       \<and> context_h (fst (fst (snd (run_loads
             [Call a ra, Call b rb, Settle 0 (Inr ()), Settle 0 (Inr ())] ((initial_app, w), [])))))
           = Some (Suc (next_context w))"
proof -
  have inv: "session_inv (initial_app, w)"
    using assms by (simp add: session_inv_def initial_app_def)
  from one_after_another_inv [OF inv, of rs] obtain sw' where
    "snd (run_loads (one_after_another rs) ((initial_app, w), [])) = (sw', [])"
    "session_inv sw'"
    "\<forall>x \<in> set (fst (run_loads (one_after_another rs) ((initial_app, w), []))).
       length (live_contexts (snd x)) \<le> 1"
    by blast
  then have seq: "(\<forall>x \<in> set (fst (run_loads (one_after_another rs) ((initial_app, w), []))).
            length (live_contexts (snd x)) \<le> 1)
       \<and> live_contexts (snd (fst (snd (run_loads (one_after_another rs) ((initial_app, w), [])))))
           = (case context_h (fst (fst (snd (run_loads (one_after_another rs)
                                               ((initial_app, w), []))))) of
                None \<Rightarrow> [] | Some h \<Rightarrow> [h])"
    by (simp add: session_inv_def)
  have rel: "context_h (fst sw) \<noteq> None
            \<longrightarrow> live_contexts (snd (fst (snd (load_step (Call n (Inr ())) (sw, []))))) = []
                \<and> context_h (fst (fst (snd (load_step (Call n (Inr ())) (sw, []))))) = None"
    by (simp add: loadModel_release_def)
  have "context_h (fst (initial_app, w)) = None" by (simp add: initial_app_def)
  with two_overlapping_loads [of "(initial_app, w)" a ra b rb] assms
  have ov: "live_contexts (snd (fst (snd (run_loads
             [Call a ra, Call b rb, Settle 0 (Inr ()), Settle 0 (Inr ())] ((initial_app, w), [])))))
           = [next_context w, Suc (next_context w)]"
    "context_h (fst (fst (snd (run_loads
             [Call a ra, Call b rb, Settle 0 (Inr ()), Settle 0 (Inr ())] ((initial_app, w), [])))))
           = Some (Suc (next_context w))"
    by simp_all
  from seq rel ov show ?thesis by blast
qed

theorem loads_one_after_another_witness:
  "live_contexts initial_world = []
   \<and> map (\<lambda>x. live_contexts (snd x))
        (fst (run_loads (one_after_another
                [(''a.gguf'', Inr (), Inr ()), (''b.gguf'', Inr (), Inr ()),
                 (''c.gguf'', Inr (), Inl ''out of memory'')])
              ((initial_app, initial_world), [])))
      = [[], [], [], [0], [0], [0], [], [], [1], [1], [1], [], [], [], []]
   \<and> list_all (\<lambda>x. length (live_contexts (snd x)) \<le> 1)
        (fst (run_loads (one_after_another
                [(''a.gguf'', Inr (), Inr ()), (''b.gguf'', Inr (), Inr ()),
                 (''c.gguf'', Inr (), Inl ''out of memory'')])
              ((initial_app, initial_world), [])))
   \<and> context_h (fst (fst (snd (run_loads (one_after_another
                [(''a.gguf'', Inr (), Inr ()), (''b.gguf'', Inr (), Inr ())])
              ((initial_app, initial_world), []))))) = Some 1
   \<and> live_contexts (snd (fst (snd (run_loads (one_after_another
                [(''a.gguf'', Inr (), Inr ()), (''b.gguf'', Inr (), Inr ())])
              ((initial_app, initial_world), []))))) = [1]
   \<and> context_h (initial_app\<lparr>context_h := Some 0\<rparr>) \<noteq> None
   \<and> live_contexts (snd (fst (snd (load_step (Call ''b.gguf'' (Inr ()))
          ((initial_app\<lparr>context_h := Some 0\<rparr>,
            initial_world\<lparr>live_contexts := [0], next_context := 1\<rparr>), []))))) = []"
proof -
  have h: "live_contexts initial_world = []" by (simp add: initial_world_def)
  have t: "map (\<lambda>x. live_contexts (snd x))
        (fst (run_loads (one_after_another
                [(''a.gguf'', Inr (), Inr ()), (''b.gguf'', Inr (), Inr ()),
                 (''c.gguf'', Inr (), Inl ''out of memory'')])
              ((initial_app, initial_world), [])))
      = [[], [], [], [0], [0], [0], [], [], [1], [1], [1], [], [], [], []]"
    by code_simp
  have c: "context_h (fst (fst (snd (run_loads (one_after_another
                [(''a.gguf'', Inr (), Inr ()), (''b.gguf'', Inr (), Inr ())])
              ((initial_app, initial_world), []))))) = Some 1"
    by code_simp
  have k: "context_h (fst (initial_app\<lparr>context_h := Some 0\<rparr>,
              initial_world\<lparr>live_contexts := [0], next_context := 1\<rparr>)) \<noteq> None"
    by simp
  from loads_one_after_another [OF h,
      of "[(''a.gguf'', Inr (), Inr ()), (''b.gguf'', Inr (), Inr ()),
           (''c.gguf'', Inr (), Inl ''out of memory'')]"]
  have 1: "list_all (\<lambda>x. length (live_contexts (snd x)) \<le> 1)
        (fst (run_loads (one_after_another
                [(''a.gguf'', Inr (), Inr ()), (''b.gguf'', Inr (), Inr ()),
                 (''c.gguf'', Inr (), Inl ''out of memory'')])
              ((initial_app, initial_world), [])))"
    by (simp add: list_all_iff)
  from loads_one_after_another [OF h, of "[(''a.gguf'', Inr (), Inr ()), (''b.gguf'', Inr (), Inr ())]"]
  have 2: "live_contexts (snd (fst (snd (run_loads (one_after_another
                [(''a.gguf'', Inr (), Inr ()), (''b.gguf'', Inr (), Inr ())])
              ((initial_app, initial_world), []))))) = [1]"
    by (simp add: c)
  from loads_one_after_another [OF h,
      where sw = "(initial_app\<lparr>context_h := Some 0\<rparr>,
                   initial_world\<lparr>live_contexts := [0], next_context := 1\<rparr>)"
        and n = "''b.gguf''"] k
  have 3: "live_contexts (snd (fst (snd (load_step (Call ''b.gguf'' (Inr ()))
          ((initial_app\<lparr>context_h := Some 0\<rparr>,
            initial_world\<lparr>live_contexts := [0], next_context := 1\<rparr>), []))))) = []"
    by blast
  from h t 1 c 2 k 3 show ?thesis by simp
qed

section \<open>Throughput samples and assistant turns\<close>

text \<open>
  A run that is let through appends a user turn and an assistant turn. It appends one
  sample when the completion returns, and none when the completion throws.
\<close>

lemma handleSendMessage_completed:
  assumes "context_h s \<noteq> None" and "js_trim (userInput s) \<noteq> []"
  shows "\<exists>s'. handleSendMessage ts (Inr tps) (s, w) = Inr (s', w)
           \<and> tokensPerSecond s' = tokensPerSecond s @ [tps]
           \<and> map role (conversation s') = map role (conversation s) @ [User, Assistant]"
proof -
  let ?c = "conversation s @ [\<lparr>role = User, content = userInput s, thought = None, showThought = None\<rparr>]"
  from onTokens_any [of ts initial_vars ?c placeholder]
  obtain v m' where "onTokens ts (initial_vars, ?c @ [placeholder]) = Inr (v, ?c @ [m'])"
    and "role m' = Assistant"
    by (auto simp: placeholder_def)
  then show ?thesis
    using assms by (simp add: handleSendMessage_def Let_def)
qed

lemma handleSendMessage_failed:
  assumes "context_h s \<noteq> None" and "js_trim (userInput s) \<noteq> []"
  shows "\<exists>s'. handleSendMessage ts (Inl msg) (s, w)
             = Inr (s', alert ''Error During Inference'' msg w)
           \<and> tokensPerSecond s' = tokensPerSecond s
           \<and> map role (conversation s') = map role (conversation s) @ [User, Assistant]"
proof -
  let ?c = "conversation s @ [\<lparr>role = User, content = userInput s, thought = None, showThought = None\<rparr>]"
  from onTokens_any [of ts initial_vars ?c placeholder]
  obtain v m' where "onTokens ts (initial_vars, ?c @ [placeholder]) = Inr (v, ?c @ [m'])"
    and "role m' = Assistant"
    by (auto simp: placeholder_def)
  then show ?thesis
    using assms by (simp add: handleSendMessage_def Let_def)
qed

text \<open>
  Claim C9 at a failing input: a loaded model, a first run whose completion throws after
  one token, then a second run that completes with 12.50 tokens per second. The
  conversation then holds two assistant turns and the list of samples a single entry:
  the errored run attached none. The render shows that entry, the throughput of the
  second turn, under the first assistant turn, and nothing under the second.
\<close>

theorem error_run_misaligns_samples:
  "(case handleSendMessage [''a''] (Inl ''engine failed'')
           (initial_app\<lparr>context_h := Some 0, userInput := ''first''\<rparr>, initial_world) of
      Inl _ \<Rightarrow> False
    | Inr sw1 \<Rightarrow>
        (case handleSendMessage [''b''] (Inr 1250) ((fst sw1)\<lparr>userInput := ''second''\<rparr>, snd sw1) of
           Inl _ \<Rightarrow> False
         | Inr sw2 \<Rightarrow>
             map role (conversation (fst sw2)) = [System, User, Assistant, User, Assistant]
             \<and> map content (conversation (fst sw2)) =
                  [content (hd INITIAL_CONVERSATION), ''first'', ''a'', ''second'', ''b'']
             \<and> tokensPerSecond (fst sw1) = []
             \<and> tokensPerSecond (fst sw2) = [1250]
             \<and> displayedTokensPerSecond (fst sw2) 1 = Some 1250
             \<and> displayedTokensPerSecond (fst sw2) 3 = None))"
  by code_simp

section \<open>Persistence of the metadata\<close>

text \<open>A list that is not empty is read back as it was saved.\<close>

lemma save_then_load:
  assumes "M \<noteq> []" and "write_ok w"
  shows "modelMetadata (fst (loadModelMetadata (s, saveModelMetadata M w))) = M"
  using assms by (simp add: loadModelMetadata_def saveModelMetadata_def setModelMetadata_def)

text \<open>
  Claim C8 at a failing input: the list holds one record, the record file holds the same
  list, and the user deletes that model. The list becomes empty, the save effect skips
  the empty list, and the record file still holds the deleted record: loading it at the
  next start brings the record back.
\<close>

theorem last_record_removal_not_persisted:
  "(let r = \<lparr>filename = ''a.gguf'', format = ''Qwen2-0.5B-Instruct'',
              downloadDate = ''2025-01-01T00:00:00.000Z'', size_bytes = Some 500\<rparr>;
        sw = deleteModel ''a.gguf'' (Inr True) True (Inr ())
               (initial_app\<lparr>modelMetadata := [r], downloadedModels := [''a.gguf'']\<rparr>,
                initial_world\<lparr>metadata_file := Stored [r]\<rparr>)
    in modelMetadata (fst sw) = []
       \<and> metadata_file (snd sw) = Stored [r]
       \<and> modelMetadata (fst (loadModelMetadata (initial_app, snd sw))) = [r])"
  by (simp add: deleteModel_def setModelMetadata_def saveModelMetadata_def alert_def
      loadModelMetadata_def initial_app_def initial_world_def Let_def)

section \<open>Reconciliation at start\<close>

lemma filename_newRecord [simp]: "filename (newRecord stat clock f) = f"
  by (simp add: newRecord_def)

lemma checkDownloadedModels_idempotent_on_current:
  assumes "modelMetadata (fst sw) = captured"
  shows "checkDownloadedModels
           (modelMetadata (fst (checkDownloadedModels captured dir stat clock sw)))
           dir stat clock (checkDownloadedModels captured dir stat clock sw)
         = checkDownloadedModels captured dir stat clock sw"
proof (cases dir)
  case None
  then show ?thesis by (simp add: checkDownloadedModels_def)
next
  case (Some files)
  define g where "g = filter (\<lambda>n. js_endsWith n ''.gguf'') files"
  define nf where "nf = filter (\<lambda>f. f \<notin> filename ` set captured) g"
  have again: "filter (\<lambda>f. f \<notin> filename ` set captured \<and> f \<notin> set nf) g = []"
    by (auto simp: filter_empty_conv nf_def)
  show ?thesis
    using Some assms again
    by (simp add: checkDownloadedModels_def Let_def setModelMetadata_def
        g_def [symmetric] nf_def [symmetric] image_Un image_image)
qed

lemma checkDownloadedModels_distinct_on_current:
  assumes "dir = Some files" "distinct files" "distinct (map filename captured)"
    and "modelMetadata (fst sw) = captured"
  shows "distinct (map filename (modelMetadata (fst (checkDownloadedModels captured dir stat clock sw))))"
  using assms
  by (auto simp: checkDownloadedModels_def Let_def setModelMetadata_def o_def
      distinct_map_filter)

text \<open>
  Claim C5 at a failing input: the record file holds a record for \<open>a.gguf\<close> and the
  file is on disk. The closure of the mount effect holds the empty list of the first
  render, so the test against the existing file names excludes nothing; once the record
  file has been loaded, the updater appends a second record for \<open>a.gguf\<close>, and the
  list with both records is written back. Likewise, running the effect body a second
  time with the same closure after a first start adds every record again. (The two
  lemmas above show that the body is idempotent and keeps file names distinct when the
  list it tests against is the current one.)
\<close>

theorem mount_duplicates_tracked_file:
  "(let r = \<lparr>filename = ''a.gguf'', format = ''Qwen2-0.5B-Instruct'',
              downloadDate = ''2025-01-01T00:00:00.000Z'', size_bytes = Some 500\<rparr>;
        stat = (\<lambda>_. Some 500); clock = (\<lambda>_. ''2025-02-02T00:00:00.000Z'');
        sw = mount (Some [''a.gguf'']) stat clock (initial_world\<lparr>metadata_file := Stored [r]\<rparr>);
        once = checkDownloadedModels [] (Some [''a.gguf'']) stat clock (initial_app, initial_world);
        twice = checkDownloadedModels [] (Some [''a.gguf'']) stat clock once
    in map filename (modelMetadata (fst sw)) = [''a.gguf'', ''a.gguf'']
       \<and> metadata_file (snd sw) = Stored (modelMetadata (fst sw))
       \<and> map filename (modelMetadata (fst once)) = [''a.gguf'']
       \<and> map filename (modelMetadata (fst twice)) = [''a.gguf'', ''a.gguf''])"
  by code_simp

section \<open>The format inferred for an untracked file\<close>

text \<open>
  Claim C6, as stated, asks for matching that ignores letter case. The file name
  \<open>QWEN2-instruct-q4.gguf\<close> holds the family name Qwen2 when case is ignored, yet
  \<^verbatim>\<open>checkDownloadedModels\<close> tests two fixed spellings only and records the format
  \<open>Unknown\<close>.
\<close>

theorem inferFormat_is_case_sensitive_counterexample:
  "spec_family_matches ''Qwen2'' ''QWEN2-instruct-q4.gguf''
   \<and> inferFormat ''QWEN2-instruct-q4.gguf'' = ''Unknown''"
  by code_simp

text \<open>
  Claim C6, amended. For every file on disk whose name ends in \<open>.gguf\<close> and is not
  among the file names the effect tests against, reconciliation adds a record with that
  file name, the size that \<^verbatim>\<open>RNFS.stat\<close> returned (undefined when it threw), the time
  stamp taken for it, and the format found by case-sensitive substring tests of two
  spellings per family, the first family that matches winning: \<open>Llama-3.2\<close> or
  \<open>llama-3.2\<close> gives \<open>Llama-3.2-1B-Instruct\<close>; else \<open>Qwen2\<close> or \<open>qwen2\<close> gives
  \<open>Qwen2-0.5B-Instruct\<close>; else \<open>DeepSeek\<close> or \<open>deepseek\<close> gives
  \<open>DeepSeek-R1-Distill-Qwen-1.5B\<close>; else \<open>SmolLM\<close> or \<open>smollm\<close> gives
  \<open>SmolLM2-1.7B-Instruct\<close>; else the format is \<open>Unknown\<close>. So
  \<open>qwen2-instruct-q4.gguf\<close> gets the Qwen format and the size of the file.
\<close>

theorem reconciliation_record_for_new_file:
  assumes "f \<in> set files" and "js_endsWith f ''.gguf''" and "f \<notin> filename ` set captured"
  shows "\<exists>r \<in> set (modelMetadata (fst (checkDownloadedModels captured (Some files) stat clock sw))).
           filename r = f \<and> size_bytes r = stat f \<and> downloadDate r = clock f
           \<and> (js_includes f ''Llama-3.2'' \<or> js_includes f ''llama-3.2''
                \<longrightarrow> format r = ''Llama-3.2-1B-Instruct'')
           \<and> (\<not> (js_includes f ''Llama-3.2'' \<or> js_includes f ''llama-3.2'')
                \<and> (js_includes f ''Qwen2'' \<or> js_includes f ''qwen2'')
                \<longrightarrow> format r = ''Qwen2-0.5B-Instruct'')
           \<and> (\<not> (js_includes f ''Llama-3.2'' \<or> js_includes f ''llama-3.2'')
                \<and> \<not> (js_includes f ''Qwen2'' \<or> js_includes f ''qwen2'')
                \<and> (js_includes f ''DeepSeek'' \<or> js_includes f ''deepseek'')
                \<longrightarrow> format r = ''DeepSeek-R1-Distill-Qwen-1.5B'')
           \<and> (\<not> (js_includes f ''Llama-3.2'' \<or> js_includes f ''llama-3.2'')
                \<and> \<not> (js_includes f ''Qwen2'' \<or> js_includes f ''qwen2'')
                \<and> \<not> (js_includes f ''DeepSeek'' \<or> js_includes f ''deepseek'')
                \<and> (js_includes f ''SmolLM'' \<or> js_includes f ''smollm'')
                \<longrightarrow> format r = ''SmolLM2-1.7B-Instruct'')
           \<and> (\<not> (js_includes f ''Llama-3.2'' \<or> js_includes f ''llama-3.2'')
                \<and> \<not> (js_includes f ''Qwen2'' \<or> js_includes f ''qwen2'')
                \<and> \<not> (js_includes f ''DeepSeek'' \<or> js_includes f ''deepseek'')
                \<and> \<not> (js_includes f ''SmolLM'' \<or> js_includes f ''smollm'')
                \<longrightarrow> format r = ''Unknown'')"
proof -
  let ?g = "filter (\<lambda>n. js_endsWith n ''.gguf'') files"
  let ?nf = "filter (\<lambda>f. f \<notin> filename ` set captured) ?g"
  from assms have in_nf: "f \<in> set ?nf" by simp
  then have "?nf \<noteq> []" by (auto simp: filter_empty_conv)
  then have "modelMetadata (fst (checkDownloadedModels captured (Some files) stat clock sw))
      = modelMetadata (fst sw) @ map (newRecord stat clock) ?nf"
    by (simp add: checkDownloadedModels_def Let_def setModelMetadata_def)
  moreover have "newRecord stat clock f \<in> set (map (newRecord stat clock) ?nf)"
    using in_nf by (simp del: set_filter)
  ultimately have "newRecord stat clock f
      \<in> set (modelMetadata (fst (checkDownloadedModels captured (Some files) stat clock sw)))"
    by simp
  then show ?thesis
    by (rule rev_bexI) (simp add: newRecord_def inferFormat_def)
qed

theorem reconciliation_record_for_new_file_witness:
  "''qwen2-instruct-q4.gguf'' \<in> set [''qwen2-instruct-q4.gguf'']
   \<and> js_endsWith ''qwen2-instruct-q4.gguf'' ''.gguf''
   \<and> ''qwen2-instruct-q4.gguf'' \<notin> filename ` set []
   \<and> map (\<lambda>r. (filename r, format r, size_bytes r))
        (modelMetadata (fst (checkDownloadedModels [] (Some [''qwen2-instruct-q4.gguf''])
                  (\<lambda>_. Some 352000000) (\<lambda>_. ''2025-02-02T00:00:00.000Z'')
                  (initial_app, initial_world))))
      = [(''qwen2-instruct-q4.gguf'', ''Qwen2-0.5B-Instruct'', Some 352000000)]"
proof -
  let ?f = "''qwen2-instruct-q4.gguf''"
  let ?M = "modelMetadata (fst (checkDownloadedModels [] (Some [?f])
                  (\<lambda>_. Some 352000000) (\<lambda>_. ''2025-02-02T00:00:00.000Z'')
                  (initial_app, initial_world)))"
  have e: "js_endsWith ?f ''.gguf''"
    by (simp add: js_endsWith_def suffix_to_prefix)
  have h: "?f \<in> set [?f]" "?f \<notin> filename ` set []" by simp_all
  have q: "\<not> (js_includes ?f ''Llama-3.2'' \<or> js_includes ?f ''llama-3.2'')
           \<and> (js_includes ?f ''Qwen2'' \<or> js_includes ?f ''qwen2'')"
    by (simp add: js_includes_def)
  have len: "length ?M = 1"
    using e by (simp add: checkDownloadedModels_def setModelMetadata_def Let_def initial_app_def)
  from reconciliation_record_for_new_file [OF h(1) e h(2),
      of "\<lambda>_. Some 352000000" "\<lambda>_. ''2025-02-02T00:00:00.000Z''" "(initial_app, initial_world)"] q
  obtain r where r: "r \<in> set ?M" "filename r = ?f" "size_bytes r = Some 352000000"
    "format r = ''Qwen2-0.5B-Instruct''"
    by blast
  from len obtain x where x: "?M = [x]" by (cases ?M) auto
  with r have "x = r" by simp
  with x r have "map (\<lambda>r. (filename r, format r, size_bytes r)) ?M
      = [(?f, ''Qwen2-0.5B-Instruct'', Some 352000000)]"
    by simp
  with h e show ?thesis by blast
qed

section \<open>A download whose destination exists\<close>

text \<open>
  Claim C7, as stated, promises that an existing destination file is never transferred
  again. When the file exists but the engine rejects it, \<^verbatim>\<open>loadModel\<close> returns false
  and \<^verbatim>\<open>handleDownloadModel\<close> goes on to the download: \<^verbatim>\<open>downloadModel\<close> is called
  and its progress callbacks arrive.
\<close>

theorem existing_file_load_failure_counterexample:
  "(let r = handleDownloadModel ''m.gguf''
              \<lparr>fileExists = True, stat_existing = Some 500,
               load_existing = (Inr (), Inl ''Failed to load model''),
               transfer = Inr ([50, 100], ''/documents/m.gguf''),
               stat_downloaded = Inr 900, now = ''2025-02-02T00:00:00.000Z'',
               load_downloaded = (Inr (), Inr ())\<rparr>
              (initial_app\<lparr>selectedModelFormat := ''Qwen2-0.5B-Instruct''\<rparr>, initial_world)
    in transfers (snd r) =
         [(''m.gguf'',
           ''https://huggingface.co/medmekk/Qwen2.5-0.5B-Instruct.GGUF/resolve/main/m.gguf'')]
       \<and> progress_calls (snd r) = [50, 100])"
  by code_simp

lemma findIndex_first:
  "\<forall>x \<in> set xs. \<not> P x \<Longrightarrow> P m \<Longrightarrow> findIndex P (xs @ m # ys) = Some (length xs)"
  by (induction xs) simp_all

lemma findIndex_none: "\<forall>x \<in> set xs. \<not> P x \<Longrightarrow> findIndex P xs = None"
  by (induction xs) simp_all

lemma backfillSize_missing:
  assumes "\<forall>x \<in> set xs. filename x \<noteq> fl" and "filename m = fl"
    and "size_bytes m = None \<or> size_bytes m = Some 0"
  shows "backfillSize fl sz (xs @ m # ys) = xs @ m\<lparr>size_bytes := Some sz\<rparr> # ys"
  using assms findIndex_first [of xs "\<lambda>m. filename m = fl" m ys]
  by (auto simp: backfillSize_def)

lemma backfillSize_known:
  assumes "\<forall>x \<in> set xs. filename x \<noteq> fl" and "filename m = fl"
    and "size_bytes m = Some k" and "0 < k"
  shows "backfillSize fl sz (xs @ m # ys) = xs @ m # ys"
  using assms findIndex_first [of xs "\<lambda>m. filename m = fl" m ys]
  by (auto simp: backfillSize_def)

lemma backfillSize_absent:
  assumes "\<forall>x \<in> set M. filename x \<noteq> fl"
  shows "backfillSize fl sz M = M"
  using assms findIndex_none [of M "\<lambda>m. filename m = fl"]
  by (simp add: backfillSize_def)

lemma setModelMetadata_logs [simp]:
  "transfers (snd (setModelMetadata f sw)) = transfers (snd sw)"
  "progress_calls (snd (setModelMetadata f sw)) = progress_calls (snd sw)"
  "alerts (snd (setModelMetadata f sw)) = alerts (snd sw)"
  "DocumentDirectoryPath (snd (setModelMetadata f sw)) = DocumentDirectoryPath (snd sw)"
  "progress (fst (setModelMetadata f sw)) = progress (fst sw)"
  "selectedModelFormat (fst (setModelMetadata f sw)) = selectedModelFormat (fst sw)"
  "modelMetadata (fst (setModelMetadata f sw)) = f (modelMetadata (fst sw))"
  by (simp_all add: setModelMetadata_def saveModelMetadata_def Let_def)

lemma loadModel_transfers:
  "transfers (snd (fst (loadModel n cl rel ini sw))) = transfers (snd sw)"
  by (cases rel; cases ini)
    (simp_all add: loadModel_def loadModel_instants_def loadModel_release_def loadModel_init_def
      loadModel_finish_def loadModel_catch_def Let_def split: option.splits)

lemma loadModel_success:
  assumes "ini = Inr ()" and "context_h cl = None \<or> rel = Inr ()"
  shows "snd (loadModel n cl rel ini sw)"
    and "progress_calls (snd (fst (loadModel n cl rel ini sw))) = progress_calls (snd sw)"
    and "alerts (snd (fst (loadModel n cl rel ini sw))) = alerts (snd sw)"
    and "progress (fst (fst (loadModel n cl rel ini sw))) = progress (fst sw)"
    and "map (\<lambda>m. (filename m, downloadDate m, size_bytes m))
           (modelMetadata (fst (fst (loadModel n cl rel ini sw))))
         = map (\<lambda>m. (filename m, downloadDate m, size_bytes m)) (modelMetadata (fst sw))"
  using assms
  by (auto simp: loadModel_def loadModel_instants_def loadModel_release_def loadModel_init_def
      loadModel_finish_def Let_def o_def split: option.splits)

lemma loadModel_failure:
  assumes "\<not> (ini = Inr () \<and> (context_h cl = None \<or> rel = Inr ()))"
  shows "\<not> snd (loadModel n cl rel ini sw)"
  using assms
  by (cases rel; cases ini)
    (auto simp: loadModel_def loadModel_release_def Let_def)

lemma download_and_load_transfers:
  "transfers (snd (download_and_load fl cl env sw))
     = transfers (snd sw) @ [(fl, downloadUrl (selectedModelFormat cl) fl)]"
  by (simp add: download_and_load_def download_finally_def alert_def loadModel_transfers Let_def
      split: sum.splits prod.splits)

text \<open>
  Claim C7, amended. Let the destination file exist. When the load of that file
  succeeds, \<^verbatim>\<open>handleDownloadModel\<close> makes no call of \<^verbatim>\<open>downloadModel\<close> and receives no
  progress callback; the progress stays 0, the download flag is cleared and the alert
  that the file already exists is shown. File names, dates and sizes of the metadata
  then change in one case only: when the size of the file was measured and the first
  record of that file has an undefined size or the size 0, that record gets the measured
  size. They are unchanged when the measurement threw, when no record has that file
  name, and when the first record of the file has a size above 0. When the load of the
  existing file fails, \<^verbatim>\<open>handleDownloadModel\<close> goes on to the download and calls
  \<^verbatim>\<open>downloadModel\<close> for the file.
\<close>

theorem existing_file_skips_transfer:
  assumes "fileExists env"
  shows "(snd (load_existing env) = Inr ()
          \<and> (context_h (fst sw) = None \<or> fst (load_existing env) = Inr ())
          \<longrightarrow> transfers (snd (handleDownloadModel fl env sw)) = transfers (snd sw)
              \<and> progress_calls (snd (handleDownloadModel fl env sw)) = progress_calls (snd sw)
              \<and> progress (fst (handleDownloadModel fl env sw)) = 0
              \<and> \<not> isDownloading (fst (handleDownloadModel fl env sw))
              \<and> alerts (snd (handleDownloadModel fl env sw)) =
                  alerts (snd sw)
                    @ [(''Info'', ''File '' @ DocumentDirectoryPath (snd sw) @ ''/'' @ fl
                                   @ '' already exists, we will load it directly.'')]
              \<and> (stat_existing env = None
                   \<longrightarrow> map (\<lambda>m. (filename m, downloadDate m, size_bytes m))
                         (modelMetadata (fst (handleDownloadModel fl env sw)))
                       = map (\<lambda>m. (filename m, downloadDate m, size_bytes m)) (modelMetadata (fst sw)))
              \<and> ((\<forall>x \<in> set (modelMetadata (fst sw)). filename x \<noteq> fl)
                   \<longrightarrow> map (\<lambda>m. (filename m, downloadDate m, size_bytes m))
                         (modelMetadata (fst (handleDownloadModel fl env sw)))
                       = map (\<lambda>m. (filename m, downloadDate m, size_bytes m)) (modelMetadata (fst sw)))
              \<and> (\<forall>xs m ys sz.
                    modelMetadata (fst sw) = xs @ m # ys \<and> (\<forall>x \<in> set xs. filename x \<noteq> fl)
                    \<and> filename m = fl \<and> stat_existing env = Some sz
                    \<longrightarrow> (size_bytes m = None \<or> size_bytes m = Some 0
                          \<longrightarrow> map (\<lambda>m. (filename m, downloadDate m, size_bytes m))
                                (modelMetadata (fst (handleDownloadModel fl env sw)))
                              = map (\<lambda>m. (filename m, downloadDate m, size_bytes m))
                                  (xs @ m\<lparr>size_bytes := Some sz\<rparr> # ys))
                        \<and> ((\<exists>k. size_bytes m = Some k \<and> 0 < k)
                          \<longrightarrow> map (\<lambda>m. (filename m, downloadDate m, size_bytes m))
                                (modelMetadata (fst (handleDownloadModel fl env sw)))
                              = map (\<lambda>m. (filename m, downloadDate m, size_bytes m))
                                  (modelMetadata (fst sw)))))
       \<and> (\<not> (snd (load_existing env) = Inr ()
              \<and> (context_h (fst sw) = None \<or> fst (load_existing env) = Inr ()))
          \<longrightarrow> transfers (snd (handleDownloadModel fl env sw))
               = transfers (snd sw) @ [(fl, downloadUrl (selectedModelFormat (fst sw)) fl)])"
proof (intro conjI impI)
  let ?ok = "snd (load_existing env) = Inr ()
      \<and> (context_h (fst sw) = None \<or> fst (load_existing env) = Inr ())"
  let ?sw0 = "((fst sw)\<lparr>isDownloading := True, progress := 0\<rparr>, snd sw)"
  let ?sw1 = "(case stat_existing env of
                 Some sz \<Rightarrow> setModelMetadata (backfillSize fl sz) ?sw0 | None \<Rightarrow> ?sw0)"
  let ?r = "loadModel fl (fst sw) (fst (load_existing env)) (snd (load_existing env)) ?sw1"
  let ?p = "map (\<lambda>m. (filename m, downloadDate m, size_bytes m))"
  have tr1: "transfers (snd ?sw1) = transfers (snd sw)"
    by (simp split: option.splits)
  {
    assume "\<not> ?ok"
    then have "\<not> snd ?r" by (intro loadModel_failure) simp
    then have "handleDownloadModel fl env sw = download_and_load fl (fst sw) env (fst ?r)"
      using assms by (simp add: handleDownloadModel_def Let_def)
    then show "transfers (snd (handleDownloadModel fl env sw))
        = transfers (snd sw) @ [(fl, downloadUrl (selectedModelFormat (fst sw)) fl)]"
      by (simp add: download_and_load_transfers loadModel_transfers tr1)
  }
  assume ok: ?ok
  then have ini: "snd (load_existing env) = Inr ()"
    and ctx: "context_h (fst sw) = None \<or> fst (load_existing env) = Inr ()" by simp_all
  note L = loadModel_success [OF ini ctx, where n = fl and sw = ?sw1]
  have res: "handleDownloadModel fl env sw =
      ((fst (fst ?r))\<lparr>isDownloading := False\<rparr>,
       alert ''Info'' (''File '' @ DocumentDirectoryPath (snd sw) @ ''/'' @ fl
                        @ '' already exists, we will load it directly.'') (snd (fst ?r)))"
    using assms L(1) by (simp add: handleDownloadModel_def Let_def)
  have meta: "?p (modelMetadata (fst (handleDownloadModel fl env sw)))
           = ?p (case stat_existing env of
                  Some sz \<Rightarrow> backfillSize fl sz (modelMetadata (fst sw))
                | None \<Rightarrow> modelMetadata (fst sw))"
    by (simp add: res L(5)) (simp split: option.splits)
  show "transfers (snd (handleDownloadModel fl env sw)) = transfers (snd sw)"
    by (simp add: res alert_def loadModel_transfers tr1)
  show "progress_calls (snd (handleDownloadModel fl env sw)) = progress_calls (snd sw)"
    by (simp add: res alert_def L(2)) (simp split: option.splits)
  show "progress (fst (handleDownloadModel fl env sw)) = 0"
    by (simp add: res L(4)) (simp split: option.splits)
  show "\<not> isDownloading (fst (handleDownloadModel fl env sw))"
    by (simp add: res)
  show "alerts (snd (handleDownloadModel fl env sw)) =
           alerts (snd sw)
             @ [(''Info'', ''File '' @ DocumentDirectoryPath (snd sw) @ ''/'' @ fl
                            @ '' already exists, we will load it directly.'')]"
    by (simp add: res alert_def L(3)) (simp split: option.splits)
  {
    assume "stat_existing env = None"
    then show "?p (modelMetadata (fst (handleDownloadModel fl env sw)))
        = ?p (modelMetadata (fst sw))"
      using meta by simp
  }
  {
    assume "\<forall>x \<in> set (modelMetadata (fst sw)). filename x \<noteq> fl"
    then show "?p (modelMetadata (fst (handleDownloadModel fl env sw)))
        = ?p (modelMetadata (fst sw))"
      using meta by (simp add: backfillSize_absent split: option.splits)
  }
  show "\<forall>xs m ys sz.
          modelMetadata (fst sw) = xs @ m # ys \<and> (\<forall>x \<in> set xs. filename x \<noteq> fl)
          \<and> filename m = fl \<and> stat_existing env = Some sz
          \<longrightarrow> (size_bytes m = None \<or> size_bytes m = Some 0
                \<longrightarrow> ?p (modelMetadata (fst (handleDownloadModel fl env sw)))
                    = ?p (xs @ m\<lparr>size_bytes := Some sz\<rparr> # ys))
              \<and> ((\<exists>k. size_bytes m = Some k \<and> 0 < k)
                \<longrightarrow> ?p (modelMetadata (fst (handleDownloadModel fl env sw)))
                    = ?p (modelMetadata (fst sw)))"
  proof (intro allI impI conjI)
    fix xs m ys sz
    assume d: "modelMetadata (fst sw) = xs @ m # ys \<and> (\<forall>x \<in> set xs. filename x \<noteq> fl)
          \<and> filename m = fl \<and> stat_existing env = Some sz"
    {
      assume "size_bytes m = None \<or> size_bytes m = Some 0"
      with d have "backfillSize fl sz (modelMetadata (fst sw)) = xs @ m\<lparr>size_bytes := Some sz\<rparr> # ys"
        by (simp add: backfillSize_missing)
      with d meta show "?p (modelMetadata (fst (handleDownloadModel fl env sw)))
          = ?p (xs @ m\<lparr>size_bytes := Some sz\<rparr> # ys)"
        by simp
    }
    {
      assume "\<exists>k. size_bytes m = Some k \<and> 0 < k"
      then obtain k where "size_bytes m = Some k" "0 < k" by blast
      with d have "backfillSize fl sz (modelMetadata (fst sw)) = xs @ m # ys"
        by (simp add: backfillSize_known)
      with d meta show "?p (modelMetadata (fst (handleDownloadModel fl env sw)))
          = ?p (modelMetadata (fst sw))"
        by simp
    }
  qed
qed


theorem existing_file_skips_transfer_witness:
  "fileExists \<lparr>fileExists = True, stat_existing = Some 500, load_existing = (Inr (), Inr ()),
               transfer = Inr ([50, 100], ''/documents/m.gguf''), stat_downloaded = Inr 900,
               now = ''2025-02-02T00:00:00.000Z'', load_downloaded = (Inr (), Inr ())\<rparr>
   \<and> context_h (initial_app\<lparr>modelMetadata :=
          [\<lparr>filename = ''m.gguf'', format = ''Qwen2-0.5B-Instruct'',
            downloadDate = ''2025-01-01T00:00:00.000Z'', size_bytes = None\<rparr>]\<rparr>) = None
   \<and> (let r = handleDownloadModel ''m.gguf''
           \<lparr>fileExists = True, stat_existing = Some 500, load_existing = (Inr (), Inr ()),
            transfer = Inr ([50, 100], ''/documents/m.gguf''), stat_downloaded = Inr 900,
            now = ''2025-02-02T00:00:00.000Z'', load_downloaded = (Inr (), Inr ())\<rparr>
           (initial_app\<lparr>modelMetadata :=
              [\<lparr>filename = ''m.gguf'', format = ''Qwen2-0.5B-Instruct'',
                downloadDate = ''2025-01-01T00:00:00.000Z'', size_bytes = None\<rparr>]\<rparr>,
            initial_world)
       in transfers (snd r) = [] \<and> progress_calls (snd r) = []
          \<and> map (\<lambda>m. (filename m, downloadDate m, size_bytes m)) (modelMetadata (fst r))
             = [(''m.gguf'', ''2025-01-01T00:00:00.000Z'', Some 500)])"
proof -
  let ?env = "\<lparr>fileExists = True, stat_existing = Some 500, load_existing = (Inr (), Inr ()),
               transfer = Inr ([50, 100], ''/documents/m.gguf''), stat_downloaded = Inr 900,
               now = ''2025-02-02T00:00:00.000Z'', load_downloaded = (Inr (), Inr ())\<rparr>"
  let ?m = "\<lparr>filename = ''m.gguf'', format = ''Qwen2-0.5B-Instruct'',
                downloadDate = ''2025-01-01T00:00:00.000Z'', size_bytes = None\<rparr>"
  let ?s = "initial_app\<lparr>modelMetadata := [?m]\<rparr>"
  let ?r = "handleDownloadModel ''m.gguf'' ?env (?s, initial_world)"
  have h: "fileExists ?env" by simp
  have c: "context_h ?s = None" by (simp add: initial_app_def)
  have ok: "snd (load_existing ?env) = Inr ()
      \<and> (context_h (fst (?s, initial_world)) = None \<or> fst (load_existing ?env) = Inr ())"
    by simp
  have d: "modelMetadata (fst (?s, initial_world)) = [] @ ?m # []
      \<and> (\<forall>x \<in> set []. filename x \<noteq> ''m.gguf'') \<and> filename ?m = ''m.gguf''
      \<and> stat_existing ?env = Some 500"
    by simp
  note T = existing_file_skips_transfer [OF h, where sw = "(?s, initial_world)" and fl = "''m.gguf''"]
  from T ok have 1: "transfers (snd ?r) = transfers initial_world"
    and 2: "progress_calls (snd ?r) = progress_calls initial_world"
    by simp_all
  from T ok have "\<forall>xs m ys sz.
          modelMetadata (fst (?s, initial_world)) = xs @ m # ys
          \<and> (\<forall>x \<in> set xs. filename x \<noteq> ''m.gguf'')
          \<and> filename m = ''m.gguf'' \<and> stat_existing ?env = Some sz
          \<longrightarrow> (size_bytes m = None \<or> size_bytes m = Some 0
                \<longrightarrow> map (\<lambda>m. (filename m, downloadDate m, size_bytes m)) (modelMetadata (fst ?r))
                    = map (\<lambda>m. (filename m, downloadDate m, size_bytes m))
                        (xs @ m\<lparr>size_bytes := Some sz\<rparr> # ys))
              \<and> ((\<exists>k. size_bytes m = Some k \<and> 0 < k)
                \<longrightarrow> map (\<lambda>m. (filename m, downloadDate m, size_bytes m)) (modelMetadata (fst ?r))
                    = map (\<lambda>m. (filename m, downloadDate m, size_bytes m))
                        (modelMetadata (fst (?s, initial_world))))"
    by blast
  from this [rule_format, of "[]" ?m "[]" 500] d
  have 3: "map (\<lambda>m. (filename m, downloadDate m, size_bytes m)) (modelMetadata (fst ?r))
      = [(''m.gguf'', ''2025-01-01T00:00:00.000Z'', Some 500)]"
    by simp
  from h c 1 2 3 show ?thesis
    by (simp add: Let_def initial_world_def)
qed

section \<open>Reasoning markers in the token stream\<close>

lemma tag_facts:
  "js_includes OPEN_TAG OPEN_TAG" "\<not> js_includes CLOSE_TAG OPEN_TAG"
  "js_includes CLOSE_TAG CLOSE_TAG" "js_replace OPEN_TAG OPEN_TAG [] = []"
  by (simp_all add: js_includes_def js_replace_def OPEN_TAG_def CLOSE_TAG_def)

text \<open>
  Claim C1, as stated, covers markers split across fragments. The callback looks for the
  markers inside each single token. On the fragments of the claim's example no token
  holds a whole marker, so no branch of the callback sets the thought: the strip pass
  over the whole message gives the content \<open>Hello  world\<close>, and the reasoning field
  stays undefined instead of holding \<open>planning\<close>.
\<close>

theorem split_marker_reasoning_counterexample:
  "onTokens [''Hello '', ''<thi'', ''nk>planning</thin'', ''k> world''] (initial_vars, [placeholder])
     = Inr (\<lparr>currentAssistantMessage = ''Hello <think>planning</think> world'',
             currentThought = [], inThinkBlock = False\<rparr>,
            [\<lparr>role = Assistant, content = ''Hello  world'', thought = None,
              showThought = Some False\<rparr>])"
  by code_simp

lemma whitespace_prefix_includes:
  assumes "\<forall>ch \<in> set a. is_whitespace ch" and "\<not> is_whitespace p"
    and "js_includes (a @ s) (p # pat)"
  shows "js_includes s (p # pat)"
  using assms
proof (induction a)
  case Nil
  then show ?case by simp
next
  case (Cons w a)
  from Cons.prems(3) obtain u v where uv: "w # a @ s = u @ (p # pat) @ v"
    by (auto simp: js_includes_iff)
  have "u \<noteq> []"
  proof
    assume "u = []"
    with uv have "w = p" by simp
    with Cons.prems(1,2) show False by simp
  qed
  then obtain u' where "u = w # u'" using uv by (cases u) auto
  with uv have "a @ s = u' @ (p # pat) @ v" by simp
  then have "js_includes (a @ s) (p # pat)" by (auto simp: js_includes_iff)
  with Cons show ?case by simp
qed

lemma js_trim_whitespace_prefix:
  "\<forall>ch \<in> set a. is_whitespace ch \<Longrightarrow> js_trim (a @ s) = js_trim s"
  by (simp add: js_trim_def dropWhile_append2)

lemma js_trim_whitespace_suffix:
  assumes "\<forall>ch \<in> set x. is_whitespace ch"
  shows "js_trim (s @ x) = js_trim s"
proof (cases "\<forall>ch \<in> set s. is_whitespace ch")
  case True
  then have 1: "dropWhile is_whitespace s = []"
    by (simp add: dropWhile_eq_Nil_conv)
  from True assms have 2: "dropWhile is_whitespace (s @ x) = []"
    by (auto simp: dropWhile_eq_Nil_conv)
  show ?thesis by (simp only: js_trim_def 1 2)
next
  case False
  then obtain y where "y \<in> set s" "\<not> is_whitespace y" by blast
  then have "dropWhile is_whitespace (s @ x) = dropWhile is_whitespace s @ x"
    by (rule dropWhile_append1)
  moreover have "dropWhile is_whitespace (rev x @ ys) = dropWhile is_whitespace ys" for ys
    by (rule dropWhile_append2) (use assms in simp)
  ultimately show ?thesis by (simp add: js_trim_def)
qed

lemma js_trim_inside: "\<exists>u v. s = u @ js_trim s @ v"
proof -
  let ?l = "dropWhile is_whitespace s"
  have "s = takeWhile is_whitespace s @ ?l" by simp
  moreover have "rev ?l = takeWhile is_whitespace (rev ?l) @ dropWhile is_whitespace (rev ?l)"
    by simp
  then have "?l = rev (dropWhile is_whitespace (rev ?l)) @ rev (takeWhile is_whitespace (rev ?l))"
    by (metis rev_append rev_rev_ident)
  ultimately have "s = takeWhile is_whitespace s @ js_trim s @ rev (takeWhile is_whitespace (rev ?l))"
    by (simp add: js_trim_def)
  then show ?thesis by blast
qed

lemma js_trim_no_marker: "\<not> js_includes s pat \<Longrightarrow> \<not> js_includes (js_trim s) pat"
  using js_trim_inside [of s] js_includes_append_left js_includes_append_right by metis


text \<open>
  Markers that lie inside single fragments, with nothing but white space before them in
  their fragment: the thought is the trimmed text between the markers.
\<close>

lemma onTokens_marker_fragments:
  assumes "\<not> js_includes (concat pre @ a) OPEN_TAG"
    and "\<forall>t \<in> set mid. \<not> js_includes t OPEN_TAG"
    and "\<not> js_includes (b @ concat mid @ x) CLOSE_TAG"
    and "\<not> js_includes (d @ concat post) CLOSE_TAG"
    and "\<forall>ch \<in> set a. is_whitespace ch" and "\<forall>ch \<in> set x. is_whitespace ch"
    and "\<not> js_includes (x @ CLOSE_TAG @ d) OPEN_TAG"
  shows "\<exists>v. onTokens (pre @ [a @ OPEN_TAG @ b] @ mid @ [x @ CLOSE_TAG @ d] @ post)
               (initial_vars, c @ [m])
           = Inr (v, c @ [m\<lparr>content := js_trim ((concat pre @ a) @ d @ concat post),
                             thought := Some (js_trim (b @ concat mid @ x))\<rparr>])"
proof -
  let ?pre = "concat pre" and ?mid = "concat mid" and ?post = "concat post"
  let ?o = "a @ OPEN_TAG @ b" and ?c = "x @ CLOSE_TAG @ d"
  have a_open: "\<not> js_includes a OPEN_TAG"
    using assms(1) js_includes_append_right by blast
  have mid_close: "\<not> js_includes ?mid CLOSE_TAG"
    using assms(3) js_includes_append_left js_includes_append_right by blast
  have mid_tokens: "\<forall>t \<in> set mid. \<not> js_includes t OPEN_TAG \<and> \<not> js_includes t CLOSE_TAG"
    using assms(2) mid_close js_includes_concat by blast
  have post_tokens: "\<forall>t \<in> set post. \<not> js_includes t CLOSE_TAG"
    using assms(4) js_includes_concat js_includes_append_right by blast
  have o_open: "js_includes ?o OPEN_TAG" and c_close: "js_includes ?c CLOSE_TAG"
    by (auto simp: js_includes_iff)
  have "split_at_first OPEN_TAG (a @ OPEN_TAG @ b) = Some (a, b)"
    using split_at_first_leftmost [of a "CHR ''<''" "''think>''" b] a_open
    by (simp add: OPEN_TAG_def)
  then have o_thought: "js_replace ?o OPEN_TAG [] = a @ b"
    by (simp add: js_replace_def)
  have "\<not> js_includes (b @ ?mid) CLOSE_TAG"
    using assms(3) js_includes_append_left [of "b @ ?mid" CLOSE_TAG x] by auto
  then have "\<not> js_includes (a @ b @ ?mid) CLOSE_TAG"
    using whitespace_prefix_includes [OF assms(5), of "CHR ''<''" "b @ ?mid" "''/think>''"]
    by (auto simp: CLOSE_TAG_def is_whitespace_def)
  then have "js_replace ((a @ b) @ ?mid) CLOSE_TAG [] = a @ b @ ?mid"
    by (simp add: js_replace_absent)
  moreover have "js_trim (a @ b @ ?mid) = js_trim (b @ ?mid @ x)"
    using js_trim_whitespace_prefix [OF assms(5), of "b @ ?mid"]
      js_trim_whitespace_suffix [OF assms(6), of "b @ ?mid"] by simp
  ultimately have c_thought:
    "js_trim (js_replace ((a @ b) @ ?mid) CLOSE_TAG []) = js_trim (b @ ?mid @ x)"
    by simp
  have visible: "strip_think ((((?pre @ ?o) @ ?mid) @ ?c) @ ?post) = (?pre @ a) @ d @ ?post"
    using strip_think_pair [OF assms(1,3), of "d @ ?post"] strip_think_no_close [OF assms(4)]
    by simp
  have cam0: "currentAssistantMessage initial_vars = []" by (simp add: initial_vars_def)
  obtain ct1 it1 th1 where 1:
    "onTokens pre (initial_vars, c @ [m]) =
       Inr (\<lparr>currentAssistantMessage = ?pre, currentThought = ct1, inThinkBlock = it1\<rparr>,
            c @ [m\<lparr>content := (if pre = [] then content m else js_trim (strip_think ?pre)),
                   thought := th1\<rparr>])"
    using onTokens_any [of pre initial_vars c m, unfolded cam0 append_Nil] by blast
  let ?v1 = "\<lparr>currentAssistantMessage = ?pre, currentThought = ct1, inThinkBlock = it1\<rparr>"
  let ?m1 = "m\<lparr>content := (if pre = [] then content m else js_trim (strip_think ?pre)),
               thought := th1\<rparr>"
  let ?v2 = "\<lparr>currentAssistantMessage = ?pre @ ?o, currentThought = a @ b, inThinkBlock = True\<rparr>"
  let ?m2 = "?m1\<lparr>content := js_trim (strip_think (?pre @ ?o))\<rparr>"
  have 2: "onToken ?o (?v1, c @ [?m1]) = Inr (?v2, c @ [?m2])"
    by (simp add: onToken_open [OF o_open] o_thought)
  let ?v3 = "\<lparr>currentAssistantMessage = (?pre @ ?o) @ ?mid, currentThought = (a @ b) @ ?mid,
              inThinkBlock = True\<rparr>"
  let ?m3 = "?m2\<lparr>content := (if mid = [] then content ?m2
                               else js_trim (strip_think ((?pre @ ?o) @ ?mid)))\<rparr>"
  have 3: "onTokens mid (?v2, c @ [?m2]) = Inr (?v3, c @ [?m3])"
    using onTokens_inside [OF mid_tokens, of ?v2 c ?m2] by simp
  let ?v4 = "\<lparr>currentAssistantMessage = ((?pre @ ?o) @ ?mid) @ ?c, currentThought = [],
              inThinkBlock = False\<rparr>"
  let ?m4 = "?m3\<lparr>content := js_trim (strip_think (((?pre @ ?o) @ ?mid) @ ?c)),
                 thought := Some (js_trim (b @ ?mid @ x))\<rparr>"
  have 4: "onToken ?c (?v3, c @ [?m3]) = Inr (?v4, c @ [?m4])"
    using onToken_close [OF assms(7) c_close, of ?v3 c ?m3] c_thought by simp
  obtain ct5 it5 where 5:
    "onTokens post (?v4, c @ [?m4]) =
       Inr (\<lparr>currentAssistantMessage = (((?pre @ ?o) @ ?mid) @ ?c) @ ?post,
             currentThought = ct5, inThinkBlock = it5\<rparr>,
            c @ [?m4\<lparr>content := (if post = [] then content ?m4
                       else js_trim (strip_think ((((?pre @ ?o) @ ?mid) @ ?c) @ ?post)))\<rparr>])"
    using onTokens_no_close [OF post_tokens, of ?v4 c ?m4] by auto
  have final: "?m4\<lparr>content := (if post = [] then content ?m4
                       else js_trim (strip_think ((((?pre @ ?o) @ ?mid) @ ?c) @ ?post)))\<rparr>
      = m\<lparr>content := js_trim ((?pre @ a) @ d @ ?post), thought := Some (js_trim (b @ ?mid @ x))\<rparr>"
    using visible by (cases "post = []") simp_all
  have "onTokens (pre @ ?o # mid @ ?c # post) (initial_vars, c @ [m])
      = onTokens (?o # mid @ ?c # post) (?v1, c @ [?m1])"
    by (simp only: onTokens_append 1 sum.case)
  also have "\<dots> = onTokens (mid @ ?c # post) (?v2, c @ [?m2])"
    by (simp only: onTokens.simps 2 sum.case)
  also have "\<dots> = onTokens (?c # post) (?v3, c @ [?m3])"
    by (simp only: onTokens_append 3 sum.case)
  also have "\<dots> = onTokens post (?v4, c @ [?m4])"
    by (simp only: onTokens.simps 4 sum.case)
  finally have "onTokens (pre @ [?o] @ mid @ [?c] @ post) (initial_vars, c @ [m])
      = onTokens post (?v4, c @ [?m4])"
    by simp
  with 5 final show ?thesis by simp
qed

text \<open>
  Claim C1, amended. Let the stream be \<open>P\<close>, the opening marker, \<open>T\<close>, the closing marker
  and \<open>Q\<close>, with no opening marker in \<open>P\<close> and no closing marker in \<open>T\<close> or \<open>Q\<close>,
  cut into fragments in any way. After all fragments the content of the turn is \<open>P\<close>
  followed by \<open>Q\<close>, trimmed: the pair of markers and the text between them are taken
  out, and the content holds no marker when \<open>P\<close> followed by \<open>Q\<close> holds none. The
  reasoning field is \<open>T\<close>, trimmed, when each of the two markers lies inside one fragment
  with nothing but white space before it in that fragment, no fragment between the two
  holds an opening marker, and the fragment of the closing marker holds no opening
  marker.
\<close>

theorem think_pair_extracted:
  assumes "concat ts = P @ OPEN_TAG @ T @ CLOSE_TAG @ Q"
    and "\<not> js_includes P OPEN_TAG" and "\<not> js_includes T CLOSE_TAG"
    and "\<not> js_includes Q CLOSE_TAG"
  shows "\<exists>v th. onTokens ts (initial_vars, c @ [m])
              = Inr (v, c @ [m\<lparr>content := js_trim (P @ Q), thought := th\<rparr>])
           \<and> (\<not> js_includes (P @ Q) OPEN_TAG \<and> \<not> js_includes (P @ Q) CLOSE_TAG
                \<longrightarrow> \<not> js_includes (js_trim (P @ Q)) OPEN_TAG
                    \<and> \<not> js_includes (js_trim (P @ Q)) CLOSE_TAG)
           \<and> ((\<exists>pre a b mid x d post.
                  ts = pre @ [a @ OPEN_TAG @ b] @ mid @ [x @ CLOSE_TAG @ d] @ post
                  \<and> concat pre @ a = P \<and> b @ concat mid @ x = T
                  \<and> (\<forall>ch \<in> set a. is_whitespace ch) \<and> (\<forall>ch \<in> set x. is_whitespace ch)
                  \<and> (\<forall>t \<in> set mid. \<not> js_includes t OPEN_TAG)
                  \<and> \<not> js_includes (x @ CLOSE_TAG @ d) OPEN_TAG)
                \<longrightarrow> th = Some (js_trim T))"
proof (cases "\<exists>pre a b mid x d post.
                  ts = pre @ [a @ OPEN_TAG @ b] @ mid @ [x @ CLOSE_TAG @ d] @ post
                  \<and> concat pre @ a = P \<and> b @ concat mid @ x = T
                  \<and> (\<forall>ch \<in> set a. is_whitespace ch) \<and> (\<forall>ch \<in> set x. is_whitespace ch)
                  \<and> (\<forall>t \<in> set mid. \<not> js_includes t OPEN_TAG)
                  \<and> \<not> js_includes (x @ CLOSE_TAG @ d) OPEN_TAG")
  case True
  then obtain pre a b mid x d post where
    d: "ts = pre @ [a @ OPEN_TAG @ b] @ mid @ [x @ CLOSE_TAG @ d] @ post"
      "concat pre @ a = P" "b @ concat mid @ x = T"
      "\<forall>ch \<in> set a. is_whitespace ch" "\<forall>ch \<in> set x. is_whitespace ch"
      "\<forall>t \<in> set mid. \<not> js_includes t OPEN_TAG"
      "\<not> js_includes (x @ CLOSE_TAG @ d) OPEN_TAG"
    by blast
  have "concat ts = (concat pre @ a) @ OPEN_TAG @ (b @ concat mid @ x) @ CLOSE_TAG @ d @ concat post"
    by (simp add: d(1))
  with assms(1) d(2,3) have q: "d @ concat post = Q" by simp
  from onTokens_marker_fragments [of pre a mid b x d post c m] assms(2,3,4) d(2-7) q
  obtain v where "onTokens (pre @ [a @ OPEN_TAG @ b] @ mid @ [x @ CLOSE_TAG @ d] @ post)
        (initial_vars, c @ [m])
      = Inr (v, c @ [m\<lparr>content := js_trim (P @ Q), thought := Some (js_trim T)\<rparr>])"
    by auto
  with d(1) js_trim_no_marker show ?thesis by blast
next
  case False
  have ne: "ts \<noteq> []" using assms(1) by (auto simp: OPEN_TAG_def)
  have cam0: "currentAssistantMessage initial_vars = []" by (simp add: initial_vars_def)
  from onTokens_any [of ts initial_vars c m, unfolded cam0 append_Nil]
  obtain ct it th where
    "onTokens ts (initial_vars, c @ [m]) =
       Inr (\<lparr>currentAssistantMessage = concat ts, currentThought = ct, inThinkBlock = it\<rparr>,
            c @ [m\<lparr>content := (if ts = [] then content m
                                 else js_trim (strip_think (concat ts))),
                   thought := th\<rparr>])"
    by blast
  moreover have "strip_think (concat ts) = P @ Q"
    using strip_think_pair [OF assms(2,3), of Q] strip_think_no_close [OF assms(4)] assms(1)
    by simp
  ultimately have "onTokens ts (initial_vars, c @ [m])
      = Inr (\<lparr>currentAssistantMessage = concat ts, currentThought = ct, inThinkBlock = it\<rparr>,
             c @ [m\<lparr>content := js_trim (P @ Q), thought := th\<rparr>])"
    using ne by simp
  with False js_trim_no_marker show ?thesis by blast
qed

theorem think_pair_extracted_witness:
  "concat [''Hi '', ''<think>a'', ''b'', ''</think> world'']
     = ''Hi '' @ OPEN_TAG @ ''ab'' @ CLOSE_TAG @ '' world''
   \<and> \<not> js_includes ''Hi '' OPEN_TAG
   \<and> \<not> js_includes ''ab'' CLOSE_TAG
   \<and> \<not> js_includes '' world'' CLOSE_TAG
   \<and> \<not> js_includes ''b'' OPEN_TAG
   \<and> \<not> js_includes (CLOSE_TAG @ '' world'') OPEN_TAG
   \<and> (\<exists>v. onTokens [''Hi '', ''<think>a'', ''b'', ''</think> world'']
              (initial_vars, INITIAL_CONVERSATION @ [placeholder])
            = Inr (v, INITIAL_CONVERSATION
                        @ [placeholder\<lparr>content := ''Hi  world'', thought := Some ''ab''\<rparr>]))"
proof -
  let ?ts = "[''Hi '', ''<think>a'', ''b'', ''</think> world'']"
  have h: "concat ?ts = ''Hi '' @ OPEN_TAG @ ''ab'' @ CLOSE_TAG @ '' world''"
    "\<not> js_includes ''Hi '' OPEN_TAG" "\<not> js_includes ''ab'' CLOSE_TAG"
    "\<not> js_includes '' world'' CLOSE_TAG"
    by (simp_all add: js_includes_def OPEN_TAG_def CLOSE_TAG_def)
  have mid: "\<not> js_includes ''b'' OPEN_TAG" "\<not> js_includes (CLOSE_TAG @ '' world'') OPEN_TAG"
    by (simp_all add: js_includes_def OPEN_TAG_def CLOSE_TAG_def)
  have t: "js_trim (''Hi '' @ '' world'') = ''Hi  world''" "js_trim ''ab'' = ''ab''"
    by (simp_all add: js_trim_def is_whitespace_def)
  have d: "\<exists>pre a b mid x d post.
             ?ts = pre @ [a @ OPEN_TAG @ b] @ mid @ [x @ CLOSE_TAG @ d] @ post
             \<and> concat pre @ a = ''Hi '' \<and> b @ concat mid @ x = ''ab''
             \<and> (\<forall>ch \<in> set a. is_whitespace ch) \<and> (\<forall>ch \<in> set x. is_whitespace ch)
             \<and> (\<forall>t \<in> set mid. \<not> js_includes t OPEN_TAG)
             \<and> \<not> js_includes (x @ CLOSE_TAG @ d) OPEN_TAG"
  proof (intro exI conjI)
    show "?ts = [''Hi ''] @ [[] @ OPEN_TAG @ ''a''] @ [''b''] @ [[] @ CLOSE_TAG @ '' world''] @ []"
      by (simp add: OPEN_TAG_def CLOSE_TAG_def)
    show "\<not> js_includes ([] @ CLOSE_TAG @ '' world'') OPEN_TAG"
      using mid(2) by simp
  qed (use mid in simp_all)
  from think_pair_extracted [OF h, of INITIAL_CONVERSATION placeholder] d
  have "\<exists>v. onTokens ?ts (initial_vars, INITIAL_CONVERSATION @ [placeholder])
      = Inr (v, INITIAL_CONVERSATION
                  @ [placeholder\<lparr>content := js_trim (''Hi '' @ '' world''),
                                 thought := Some (js_trim ''ab'')\<rparr>])"
    by blast
  then show ?thesis using h mid by (simp only: t) simp
qed

text \<open>
  Claim C2, as stated, says that the text after an unclosed opening marker is in neither
  accumulator. The strip pass removes complete pairs only: after the fragments
  \<open>Hi \<close>, \<open><think>\<close>, \<open>abc\<close> the content of the turn is \<open>Hi <think>abc\<close>, the
  marker and the text after it included. The reasoning field stays undefined.
\<close>

theorem unclosed_think_counterexample:
  "onTokens [''Hi '', ''<think>'', ''abc''] (initial_vars, [placeholder])
     = Inr (\<lparr>currentAssistantMessage = ''Hi <think>abc'', currentThought = ''abc'',
             inThinkBlock = True\<rparr>,
            [\<lparr>role = Assistant, content = ''Hi <think>abc'', thought = None,
              showThought = Some False\<rparr>])"
  by code_simp

lemma js_trim_around_open:
  "js_trim (a @ OPEN_TAG @ b)
     = dropWhile is_whitespace a @ OPEN_TAG @ rev (dropWhile is_whitespace (rev b))"
proof -
  have lt: "\<not> is_whitespace (CHR ''<'')" and gt: "\<not> is_whitespace (CHR ''>'')"
    by (simp_all add: is_whitespace_def)
  have front: "dropWhile is_whitespace (a @ CHR ''<'' # ys)
      = dropWhile is_whitespace a @ CHR ''<'' # ys" for ys
    by (rule dropWhile_append3) (rule lt)
  have rear: "dropWhile is_whitespace (rev b @ CHR ''>'' # ys)
      = dropWhile is_whitespace (rev b) @ CHR ''>'' # ys" for ys
    by (rule dropWhile_append3) (rule gt)
  show ?thesis
    by (simp add: js_trim_def OPEN_TAG_def front rear)
qed

text \<open>
  Claim C2, amended. When the stream holds an opening marker and no closing marker, then
  at the end of the stream the reasoning field is what it was before the run (the text
  after the marker is never published as reasoning), and the content of the turn is the
  whole stream, trimmed: the text before the marker without its leading white space,
  the opening marker itself, and the text after the marker without its trailing white
  space.
\<close>

theorem unclosed_think_stays_visible:
  assumes "concat ts = a @ OPEN_TAG @ b" and "\<not> js_includes (concat ts) CLOSE_TAG"
  shows "\<exists>v. onTokens ts (initial_vars, c @ [m])
           = Inr (v, c @ [m\<lparr>content := dropWhile is_whitespace a @ OPEN_TAG
                                         @ rev (dropWhile is_whitespace (rev b))\<rparr>])"
proof -
  have tokens: "\<forall>t \<in> set ts. \<not> js_includes t CLOSE_TAG"
    using assms(2) js_includes_concat by blast
  have ne: "ts \<noteq> []" using assms(1) by (auto simp: OPEN_TAG_def)
  have cam0: "currentAssistantMessage initial_vars = []" by (simp add: initial_vars_def)
  from onTokens_no_close [OF tokens, of initial_vars c m, unfolded cam0 append_Nil]
  obtain ct it where
    "onTokens ts (initial_vars, c @ [m]) =
       Inr (\<lparr>currentAssistantMessage = concat ts, currentThought = ct, inThinkBlock = it\<rparr>,
            c @ [m\<lparr>content := (if ts = [] then content m
                                 else js_trim (strip_think (concat ts)))\<rparr>])"
    by blast
  moreover have "js_trim (strip_think (concat ts))
      = dropWhile is_whitespace a @ OPEN_TAG @ rev (dropWhile is_whitespace (rev b))"
    using strip_think_no_close [OF assms(2)] assms(1) js_trim_around_open by simp
  ultimately show ?thesis using ne by simp
qed

theorem unclosed_think_stays_visible_witness:
  "concat [''Hi '', ''<think>'', ''abc ''] = ''Hi '' @ OPEN_TAG @ ''abc ''
   \<and> \<not> js_includes (concat [''Hi '', ''<think>'', ''abc '']) CLOSE_TAG
   \<and> (\<exists>v. onTokens [''Hi '', ''<think>'', ''abc ''] (initial_vars, INITIAL_CONVERSATION @ [placeholder])
            = Inr (v, INITIAL_CONVERSATION @ [placeholder\<lparr>content := ''Hi <think>abc''\<rparr>]))"
proof -
  have h: "concat [''Hi '', ''<think>'', ''abc ''] = ''Hi '' @ OPEN_TAG @ ''abc ''"
    "\<not> js_includes (concat [''Hi '', ''<think>'', ''abc '']) CLOSE_TAG"
    by (simp_all add: js_includes_def OPEN_TAG_def CLOSE_TAG_def)
  have t: "dropWhile is_whitespace ''Hi '' @ OPEN_TAG @ rev (dropWhile is_whitespace (rev ''abc ''))
      = ''Hi <think>abc''"
    by (simp add: is_whitespace_def OPEN_TAG_def)
  show ?thesis
    using unclosed_think_stays_visible [OF h, of INITIAL_CONVERSATION placeholder, unfolded t] h
    by blast
qed

end
